theory Spec2Isabelle
  imports Main "HOL-Library.AList"
begin

section \<open>Activity Assignment Algorithm: a shallow embedding of auto\_assign.py\<close>

text \<open>
  The development follows \<^verbatim>\<open>src/auto_assign.py\<close> function by function.
  Python dictionaries are association lists in insertion order (\<open>map_of\<close> reads a key,
  \<open>AList.update\<close> overwrites a key in place or appends a new one, as a \<^verbatim>\<open>dict\<close> does).
  Every exception the Python can raise is a value of type \<open>error\<close>.  A loop that mutates
  its dictionaries in place and is wrapped in \<^verbatim>\<open>try\<close> returns the state reached when the
  exception was raised, because the mutation is not undone by the handler.
  The maximum-flow routine of networkx is not part of the repository: it is a parameter
  \<open>solver\<close> of the model.  Console output is modelled only for the loader.
  Text is an Isabelle \<open>string\<close>: a list of characters with code points below 256.
\<close>

subsection \<open>Python primitives\<close>

datatype error = KeyError string | ValueError | AttributeError | SolverFailure

text \<open>\<^verbatim>\<open>s.split('_')\<close>: cut at every underscore.\<close>

fun split_all :: "string \<Rightarrow> string list" where
  "split_all [] = [[]]"
| "split_all (c # cs) =
     (if c = CHR ''_'' then [] # split_all cs
      else (case split_all cs of [] \<Rightarrow> [[c]] | p # ps \<Rightarrow> (c # p) # ps))"

text \<open>\<^verbatim>\<open>s.split('_', 1)\<close>: cut at the first underscore only.\<close>

fun split_first :: "string \<Rightarrow> string list" where
  "split_first [] = [[]]"
| "split_first (c # cs) =
     (if c = CHR ''_'' then [[], cs]
      else (case split_first cs of [] \<Rightarrow> [[c]] | p # ps \<Rightarrow> (c # p) # ps))"

text \<open>\<^verbatim>\<open>s.startswith('S')\<close>.\<close>

fun startswith_S :: "string \<Rightarrow> bool" where
  "startswith_S [] = False"
| "startswith_S (c # cs) = (c = CHR ''S'')"

text \<open>\<^verbatim>\<open>k in d\<close> for a dictionary \<open>d\<close>.\<close>

definition has_key :: "'k \<Rightarrow> ('k \<times> 'v) list \<Rightarrow> bool" where
  "has_key k d = (map_of d k \<noteq> None)"

text \<open>\<^verbatim>\<open>a.update(b)\<close>.\<close>

definition dict_update :: "('k \<times> 'v) list \<Rightarrow> ('k \<times> 'v) list \<Rightarrow> ('k \<times> 'v) list" where
  "dict_update a b = fold (\<lambda>(k, v) d. AList.update k v d) b a"

text \<open>A \<^verbatim>\<open>for\<close> loop whose body may raise: the exception leaves the loop.\<close>

fun for_each :: "('a \<Rightarrow> 's \<Rightarrow> error + 's) \<Rightarrow> 'a list \<Rightarrow> 's \<Rightarrow> error + 's" where
  "for_each body [] s = Inr s"
| "for_each body (x # xs) s =
     (case body x s of Inl e \<Rightarrow> Inl e | Inr s' \<Rightarrow> for_each body xs s')"

text \<open>
  The same loop over state that is mutated in place and outlives the exception: the
  result is the exception, if any, and the state at that moment.
\<close>

fun for_each_mut :: "('a \<Rightarrow> 's \<Rightarrow> error option \<times> 's) \<Rightarrow> 'a list \<Rightarrow> 's \<Rightarrow> error option \<times> 's" where
  "for_each_mut body [] s = (None, s)"
| "for_each_mut body (x # xs) s =
     (case body x s of (Some e, s') \<Rightarrow> (Some e, s') | (None, s') \<Rightarrow> for_each_mut body xs s')"

subsection \<open>Data model\<close>

text \<open>
  One preference record: the dictionary with the fixed keys \<^verbatim>\<open>1st_preference\<close>,
  \<^verbatim>\<open>2nd_preference\<close>, \<^verbatim>\<open>3rd_preference\<close> that the loader builds.
\<close>

record day_prefs =
  pref_1st :: string
  pref_2nd :: string
  pref_3rd :: string

datatype pref_level = L1st | L2nd | L3rd

text \<open>\<^verbatim>\<open>prefs[f'{pref_level}_preference']\<close>.\<close>

fun pref_of :: "pref_level \<Rightarrow> day_prefs \<Rightarrow> string" where
  "pref_of L1st p = pref_1st p"
| "pref_of L2nd p = pref_2nd p"
| "pref_of L3rd p = pref_3rd p"

text \<open>\<^verbatim>\<open>prefs.values()\<close>.\<close>

definition pref_values :: "day_prefs \<Rightarrow> string list" where
  "pref_values p = [pref_1st p, pref_2nd p, pref_3rd p]"

record student_data =
  weight :: string
  days :: "(string \<times> day_prefs) list"

type_synonym preferences = "(string \<times> student_data) list"

type_synonym ledger = "(string \<times> (string \<times> int) list) list"

type_synonym assignments = "(string \<times> (string \<times> string) list) list"

text \<open>
  \<^verbatim>\<open>DAYS\<close> is a \<^verbatim>\<open>frozenset\<close>.  The order in which a loop visits it is the same
  throughout one run of the interpreter but depends on the hash seed of that run.  The
  functions that loop over \<^verbatim>\<open>DAYS\<close> therefore take that order as their argument
  \<open>day_order\<close>, and \<open>iteration_order\<close> says which lists it can be.
\<close>

definition DAYS :: "string set" where
  "DAYS = {''mon'', ''tue'', ''wed'', ''thu''}"

definition iteration_order :: "string list \<Rightarrow> bool" where
  "iteration_order day_order = (distinct day_order \<and> set day_order = DAYS)"

text \<open>A networkx \<^verbatim>\<open>DiGraph\<close>: nodes in insertion order, edges with capacity and weight.\<close>

record graph =
  nodes :: "string list"
  edges :: "((string \<times> string) \<times> (int \<times> int)) list"

definition empty_graph :: graph where
  "empty_graph = \<lparr>nodes = [], edges = []\<rparr>"

definition add_node :: "string \<Rightarrow> graph \<Rightarrow> graph" where
  "add_node n G = (if n \<in> set (nodes G) then G else G\<lparr>nodes := nodes G @ [n]\<rparr>)"

definition add_edge :: "string \<Rightarrow> string \<Rightarrow> int \<Rightarrow> int \<Rightarrow> graph \<Rightarrow> graph" where
  "add_edge u v c w G =
     (add_node v (add_node u G))\<lparr>edges := AList.update (u, v) (c, w) (edges G)\<rparr>"

text \<open>
  The flow dictionary returned by \<^verbatim>\<open>nx.maximum_flow(G, 'source', 'sink')[1]\<close>:
  node \<open>\<mapsto>\<close> (successor \<open>\<mapsto>\<close> flow).
\<close>

type_synonym flow_dict = "(string \<times> (string \<times> int) list) list"

type_synonym solver = "graph \<Rightarrow> error + flow_dict"

subsection \<open>\<^verbatim>\<open>create_priority_network\<close>\<close>

text \<open>\<^verbatim>\<open>remaining_capacity[day][activity]\<close>.\<close>

definition ledger_get :: "ledger \<Rightarrow> string \<Rightarrow> string \<Rightarrow> error + int" where
  "ledger_get cap day activity =
     (case map_of cap day of
        None \<Rightarrow> Inl (KeyError day)
      | Some m \<Rightarrow> (case map_of m activity of
                    None \<Rightarrow> Inl (KeyError activity)
                  | Some c \<Rightarrow> Inr c))"

text \<open>The body of the inner loop: one day of one student.\<close>

definition add_student_day ::
  "ledger \<Rightarrow> pref_level \<Rightarrow> string \<Rightarrow> (string \<times> day_prefs) \<Rightarrow> graph \<Rightarrow> error + graph" where
  "add_student_day remaining_capacity lvl student_id dp G =
     (let day = fst dp;
          student_day_node = student_id @ ''_'' @ day;
          G1 = add_edge ''source'' student_day_node 1 0 G;
          activity = pref_of lvl (snd dp)
      in case ledger_get remaining_capacity day activity of
           Inl e \<Rightarrow> Inl e
         | Inr c \<Rightarrow>
             Inr (add_edge (day @ ''_'' @ activity) ''sink'' c 0
                   (if c > 0 then add_edge student_day_node (day @ ''_'' @ activity) 1 0 G1
                    else G1)))"

definition add_student ::
  "ledger \<Rightarrow> pref_level \<Rightarrow> (string \<times> student_data) \<Rightarrow> graph \<Rightarrow> error + graph" where
  "add_student remaining_capacity lvl sd G =
     for_each (add_student_day remaining_capacity lvl (fst sd)) (days (snd sd)) G"

definition create_priority_network ::
  "preferences \<Rightarrow> ledger \<Rightarrow> pref_level \<Rightarrow> error + graph" where
  "create_priority_network priority_students remaining_capacity lvl =
     for_each (add_student remaining_capacity lvl) priority_students
       (add_node ''sink'' (add_node ''source'' empty_graph))"

subsection \<open>\<^verbatim>\<open>assign_priority_group\<close>\<close>

type_synonym alloc_state = "assignments \<times> ledger"

text \<open>
  The body of the innermost loop, for one entry \<open>(target, flow)\<close> of a student-day
  node's flows.  The assignment is written before the ledger is decremented, so a
  \<^verbatim>\<open>KeyError\<close> of the decrement leaves the assignment in place.
\<close>

definition commit_flow ::
  "string \<Rightarrow> string \<Rightarrow> (string \<times> int) \<Rightarrow> alloc_state \<Rightarrow> error option \<times> alloc_state" where
  "commit_flow student_id day tf st =
     (let target = fst tf; flow = snd tf; group_assignments = fst st; activity_capacity = snd st
      in if flow > 0 \<and> target \<noteq> ''sink'' then
           (case split_first target of
              [_, activity] \<Rightarrow>
                (let ga1 = (if has_key student_id group_assignments then group_assignments
                            else AList.update student_id [] group_assignments);
                     m = (case map_of ga1 student_id of None \<Rightarrow> [] | Some m \<Rightarrow> m)
                 in if has_key day m then (None, (ga1, activity_capacity))
                    else
                      (let ga2 = AList.update student_id (AList.update day activity m) ga1
                       in case ledger_get activity_capacity day activity of
                            Inl e \<Rightarrow> (Some e, (ga2, activity_capacity))
                          | Inr c \<Rightarrow>
                              (None, (ga2,
                                 AList.update day
                                   (AList.update activity (c - 1)
                                      (case map_of activity_capacity day of None \<Rightarrow> [] | Some cm \<Rightarrow> cm))
                                   activity_capacity))))
            | _ \<Rightarrow> (Some ValueError, st))
         else (None, st))"

text \<open>The body of the loop over \<^verbatim>\<open>flow_dict.items()\<close>.\<close>

definition process_node ::
  "(string \<times> (string \<times> int) list) \<Rightarrow> alloc_state \<Rightarrow> error option \<times> alloc_state" where
  "process_node nf st =
     (let node = fst nf; flows = snd nf
      in if node \<noteq> ''source'' \<and> CHR ''_'' \<in> set node then
           (case split_all node of
              [student_id, day] \<Rightarrow>
                (if startswith_S student_id
                 then for_each_mut (commit_flow student_id day) flows st
                 else (None, st))
            | _ \<Rightarrow> (Some ValueError, st))
         else (None, st))"

text \<open>
  One pass: build the network of the level, solve it, commit.  An exception of the
  network builder is outside the \<^verbatim>\<open>try\<close> and leaves the function; an exception of the
  solver or of the commit loop is swallowed and the pass ends with the state it reached.
\<close>

definition run_pass ::
  "solver \<Rightarrow> preferences \<Rightarrow> pref_level \<Rightarrow> alloc_state \<Rightarrow> error + alloc_state" where
  "run_pass solve priority_students lvl st =
     (case create_priority_network priority_students (snd st) lvl of
        Inl e \<Rightarrow> Inl e
      | Inr G_pref \<Rightarrow>
          (case solve G_pref of
             Inl e \<Rightarrow> Inr st
           | Inr flow_dict \<Rightarrow> Inr (snd (for_each_mut process_node flow_dict st))))"

definition assign_priority_group ::
  "solver \<Rightarrow> preferences \<Rightarrow> string \<Rightarrow> ledger \<Rightarrow> error + alloc_state" where
  "assign_priority_group solve priority_students label activity_capacity =
     for_each (run_pass solve priority_students) [L1st, L2nd, L3rd] ([], activity_capacity)"

subsection \<open>\<^verbatim>\<open>assign_students_to_activities\<close>\<close>

definition priority_group :: "string \<Rightarrow> preferences \<Rightarrow> preferences" where
  "priority_group label preferences = filter (\<lambda>sd. weight (snd sd) = label) preferences"

text \<open>Initialising the ledger: every activity named on a day gets 15 seats.\<close>

definition init_activity :: "string \<Rightarrow> (string \<times> int) list \<Rightarrow> (string \<times> int) list" where
  "init_activity activity m = (if has_key activity m then m else AList.update activity 15 m)"

definition init_student_day ::
  "string \<Rightarrow> (string \<times> student_data) \<Rightarrow> ledger \<Rightarrow> error + ledger" where
  "init_student_day day sd cap =
     (case map_of (days (snd sd)) day of
        None \<Rightarrow> Inl (KeyError day)
      | Some prefs \<Rightarrow>
          Inr (AList.update day
                 (fold init_activity (pref_values prefs)
                    (case map_of cap day of None \<Rightarrow> [] | Some m \<Rightarrow> m))
                 cap))"

definition init_capacity :: "string list \<Rightarrow> preferences \<Rightarrow> error + ledger" where
  "init_capacity day_order preferences =
     for_each (\<lambda>day. for_each (init_student_day day) preferences) day_order
       (map (\<lambda>day. (day, [])) day_order)"

text \<open>The body of the loop over the three priority groups.\<close>

definition process_group ::
  "solver \<Rightarrow> preferences \<Rightarrow> string \<Rightarrow> alloc_state \<Rightarrow> error + alloc_state" where
  "process_group solve preferences label st =
     (case assign_priority_group solve (priority_group label preferences) label (snd st) of
        Inl e \<Rightarrow> Inl e
      | Inr (new_assignments, cap') \<Rightarrow> Inr (dict_update (fst st) new_assignments, cap'))"

text \<open>
  Everything up to the end of the loop over the groups: the assignment mapping and the
  ledger it leaves.
\<close>

definition allocate :: "string list \<Rightarrow> solver \<Rightarrow> preferences \<Rightarrow> error + alloc_state" where
  "allocate day_order solve preferences =
     (case init_capacity day_order preferences of
        Inl e \<Rightarrow> Inl e
      | Inr activity_capacity \<Rightarrow>
          for_each (process_group solve preferences) [''high'', ''medium'', ''low'']
            ([], activity_capacity))"

record satisfaction =
  sat_1st :: nat
  sat_2nd :: nat
  sat_3rd :: nat
  sat_other :: nat

definition classify :: "day_prefs \<Rightarrow> string \<Rightarrow> satisfaction \<Rightarrow> satisfaction" where
  "classify student_prefs assigned_activity s =
     (if assigned_activity = pref_1st student_prefs then s\<lparr>sat_1st := sat_1st s + 1\<rparr>
      else if assigned_activity = pref_2nd student_prefs then s\<lparr>sat_2nd := sat_2nd s + 1\<rparr>
      else if assigned_activity = pref_3rd student_prefs then s\<lparr>sat_3rd := sat_3rd s + 1\<rparr>
      else s\<lparr>sat_other := sat_other s + 1\<rparr>)"

text \<open>\<^verbatim>\<open>preferences[student_id]['days'][day]\<close>.\<close>

definition prefs_get :: "preferences \<Rightarrow> string \<Rightarrow> string \<Rightarrow> error + day_prefs" where
  "prefs_get preferences student_id day =
     (case map_of preferences student_id of
        None \<Rightarrow> Inl (KeyError student_id)
      | Some data \<Rightarrow> (case map_of (days data) day of
                       None \<Rightarrow> Inl (KeyError day)
                     | Some p \<Rightarrow> Inr p))"

definition count_day ::
  "preferences \<Rightarrow> string \<Rightarrow> (string \<times> string) \<Rightarrow> satisfaction \<Rightarrow> error + satisfaction" where
  "count_day preferences student_id da s =
     (case prefs_get preferences student_id (fst da) of
        Inl e \<Rightarrow> Inl e
      | Inr student_prefs \<Rightarrow> Inr (classify student_prefs (snd da) s))"

definition count_student ::
  "preferences \<Rightarrow> (string \<times> (string \<times> string) list) \<Rightarrow> satisfaction \<Rightarrow> error + satisfaction" where
  "count_student preferences sa s = for_each (count_day preferences (fst sa)) (snd sa) s"

definition preference_satisfaction :: "preferences \<Rightarrow> assignments \<Rightarrow> error + satisfaction" where
  "preference_satisfaction preferences asg =
     for_each (count_student preferences) asg
       \<lparr>sat_1st = 0, sat_2nd = 0, sat_3rd = 0, sat_other = 0\<rparr>"

text \<open>
  The function itself.  Any exception inside its \<^verbatim>\<open>try\<close> and an empty assignment
  mapping both give \<^verbatim>\<open>(None, None)\<close>.  The graph \<open>G\<close> is a parameter, as in the source.
\<close>

definition assign_students_to_activities ::
  "string list \<Rightarrow> solver \<Rightarrow> graph \<Rightarrow> preferences \<Rightarrow>
   assignments option \<times> satisfaction option" where
  "assign_students_to_activities day_order solve G preferences =
     (case allocate day_order solve preferences of
        Inl e \<Rightarrow> (None, None)
      | Inr (asg, cap) \<Rightarrow>
          if asg = [] then (None, None)
          else (case preference_satisfaction preferences asg of
                  Inl e \<Rightarrow> (None, None)
                | Inr s \<Rightarrow> (Some asg, Some s)))"

subsection \<open>\<^verbatim>\<open>build_flow_network\<close> and the call in \<^verbatim>\<open>run\<close>\<close>

definition STUDENT_WEIGHTS :: "(string \<times> int) list" where
  "STUDENT_WEIGHTS = [(''high'', 1), (''medium'', 100), (''low'', 1000)]"

fun PREFERENCE_WEIGHTS :: "pref_level \<Rightarrow> int" where
  "PREFERENCE_WEIGHTS L1st = 0"
| "PREFERENCE_WEIGHTS L2nd = 1"
| "PREFERENCE_WEIGHTS L3rd = 2"

text \<open>\<^verbatim>\<open>prefs.items()\<close>, with the level that \<^verbatim>\<open>pref_type.split('_')[0]\<close> names.\<close>

definition pref_items :: "day_prefs \<Rightarrow> (pref_level \<times> string) list" where
  "pref_items p = [(L1st, pref_1st p), (L2nd, pref_2nd p), (L3rd, pref_3rd p)]"

text \<open>
  A Python \<^verbatim>\<open>set\<close> of activity names, kept as a duplicate-free list (Python leaves the
  iteration order of a set open; here it is the order of first insertion).
\<close>

definition set_add :: "string \<Rightarrow> string list \<Rightarrow> string list" where
  "set_add a s = (if a \<in> set s then s else s @ [a])"

definition collect_day ::
  "(string \<times> day_prefs) \<Rightarrow> (string \<times> string list) list \<Rightarrow> error + (string \<times> string list) list" where
  "collect_day dp activities_by_day =
     (case map_of activities_by_day (fst dp) of
        None \<Rightarrow> Inl (KeyError (fst dp))
      | Some s \<Rightarrow> Inr (AList.update (fst dp) (fold set_add (pref_values (snd dp)) s) activities_by_day))"

definition weighted_day :: "string \<Rightarrow> int \<Rightarrow> (string \<times> day_prefs) \<Rightarrow> graph \<Rightarrow> graph" where
  "weighted_day student_id student_weight dp G =
     (let student_day_node = student_id @ ''_'' @ fst dp
      in fold (\<lambda>la. add_edge student_day_node (fst dp @ ''_'' @ snd la) 1
                       (PREFERENCE_WEIGHTS (fst la) + student_weight))
           (pref_items (snd dp))
           (add_edge ''source'' student_day_node 1 0 G))"

definition weighted_student :: "(string \<times> student_data) \<Rightarrow> graph \<Rightarrow> error + graph" where
  "weighted_student sd G =
     (case map_of STUDENT_WEIGHTS (weight (snd sd)) of
        None \<Rightarrow> Inl (KeyError (weight (snd sd)))
      | Some student_weight \<Rightarrow> Inr (fold (weighted_day (fst sd) student_weight) (days (snd sd)) G))"

definition sink_edges :: "int \<Rightarrow> (string \<times> string list) \<Rightarrow> graph \<Rightarrow> graph" where
  "sink_edges max_capacity_per_activity da G =
     fold (\<lambda>activity. add_edge (fst da @ ''_'' @ activity) ''sink'' max_capacity_per_activity 0)
       (snd da) G"

definition build_flow_network :: "preferences \<Rightarrow> string list \<Rightarrow> int \<Rightarrow> error + graph" where
  "build_flow_network preferences days_arg max_capacity_per_activity =
     (case for_each (\<lambda>sd. for_each collect_day (days (snd sd))) preferences
             (map (\<lambda>day. (day, [])) days_arg) of
        Inl e \<Rightarrow> Inl e
      | Inr activities_by_day \<Rightarrow>
          (case for_each weighted_student preferences
                  (add_node ''sink'' (add_node ''source'' empty_graph)) of
             Inl e \<Rightarrow> Inl e
           | Inr G \<Rightarrow> Inr (fold (sink_edges max_capacity_per_activity) activities_by_day G)))"

text \<open>
  The two lines of \<^verbatim>\<open>run\<close> that build the weighted network and hand it to the
  allocator; an exception of \<^verbatim>\<open>build_flow_network\<close> is not caught there.
\<close>

definition run_allocation ::
  "string list \<Rightarrow> solver \<Rightarrow> preferences \<Rightarrow>
   error + (assignments option \<times> satisfaction option)" where
  "run_allocation day_order solve preferences =
     (case build_flow_network preferences day_order 15 of
        Inl e \<Rightarrow> Inl e
      | Inr G \<Rightarrow> Inr (assign_students_to_activities day_order solve G preferences))"

subsection \<open>\<^verbatim>\<open>load_student_preferences\<close>\<close>

text \<open>
  The rows come from \<^verbatim>\<open>csv.DictReader\<close> of Python's library.  A row is a dictionary
  with a key for every column that the header names; its value is the text of the field,
  or \<^verbatim>\<open>None\<close> where the line is short of that field.  Opening the file and cutting a
  line into its fields are not modelled: the lines are given as lists of fields.
\<close>

type_synonym row = "(string \<times> string option) list"

text \<open>
  One line under the header \<open>fieldnames\<close>: \<^verbatim>\<open>dict(zip(fieldnames, line))\<close>, then
  \<^verbatim>\<open>None\<close> for every column the line is short of.  The fields beyond the last column go
  under the key \<^verbatim>\<open>None\<close>, which the loader never reads; they are left out.
\<close>

definition reader_row :: "string list \<Rightarrow> string list \<Rightarrow> row" where
  "reader_row fieldnames line =
     fold (\<lambda>kv. AList.update (fst kv) (snd kv))
       (zip fieldnames (map Some line @ replicate (length fieldnames - length line) None)) []"

text \<open>The first line is the header; a line without any field is skipped.\<close>

definition DictReader :: "string list list \<Rightarrow> row list" where
  "DictReader lines =
     (case lines of
        [] \<Rightarrow> []
      | fieldnames # records \<Rightarrow>
          map (reader_row fieldnames) (filter (\<lambda>line. line \<noteq> []) records))"

text \<open>\<^verbatim>\<open>row[k]\<close>.\<close>

definition row_get :: "row \<Rightarrow> string \<Rightarrow> error + string option" where
  "row_get r k = (case map_of r k of None \<Rightarrow> Inl (KeyError k) | Some v \<Rightarrow> Inr v)"

text \<open>
  \<^verbatim>\<open>s.strip()\<close> and \<^verbatim>\<open>s.lower()\<close>.  Below code point 256 Python's white space is
  \<open>0x09\<close> to \<open>0x0D\<close>, \<open>0x1C\<close> to \<open>0x20\<close>, \<open>0x85\<close> and \<open>0xA0\<close>, and the letters with a
  lower-case form are \<open>A\<close> to \<open>Z\<close> and \<open>0xC0\<close> to \<open>0xDE\<close> without \<open>0xD7\<close>, each 32 below
  its lower-case form.
\<close>

definition is_space :: "char \<Rightarrow> bool" where
  "is_space c =
     (let n = (of_char c :: nat)
      in (0x09 \<le> n \<and> n \<le> 0x0D) \<or> (0x1C \<le> n \<and> n \<le> 0x20) \<or> n = 0x85 \<or> n = 0xA0)"

definition strip :: "string \<Rightarrow> string" where
  "strip s = rev (dropWhile is_space (rev (dropWhile is_space s)))"

definition lower_char :: "char \<Rightarrow> char" where
  "lower_char c =
     (let n = (of_char c :: nat)
      in if (0x41 \<le> n \<and> n \<le> 0x5A) \<or> (0xC0 \<le> n \<and> n \<le> 0xDE \<and> n \<noteq> 0xD7)
         then char_of (n + 32) else c)"

definition lower :: "string \<Rightarrow> string" where
  "lower s = map lower_char s"

text \<open>\<^verbatim>\<open>row[k].strip()\<close>: \<^verbatim>\<open>None\<close> has no method \<^verbatim>\<open>strip\<close>.\<close>

definition stripped :: "row \<Rightarrow> string \<Rightarrow> error + string" where
  "stripped r k =
     (case row_get r k of
        Inl e \<Rightarrow> Inl e
      | Inr None \<Rightarrow> Inl AttributeError
      | Inr (Some s) \<Rightarrow> Inr (strip s))"

text \<open>
  What the loader builds for a student.  The identifier and the weight are whatever the
  row holds for \<^verbatim>\<open>student_id\<close> and \<^verbatim>\<open>priority\<close>, text or \<^verbatim>\<open>None\<close>; the allocator above
  is modelled for identifiers and weights that are text.
\<close>

record loaded_data =
  loaded_weight :: "string option"
  loaded_days :: "(string \<times> day_prefs) list"

type_synonym loaded_preferences = "(string option \<times> loaded_data) list"

text \<open>
  The body of the loop over the rows.  The student's entry is created before the
  other fields are read, so it stays when one of them raises.  The right-hand side of
  the assignment to \<^verbatim>\<open>preferences[student_id]['days'][day]\<close> is evaluated first.
\<close>

definition load_row :: "row \<Rightarrow> loaded_preferences \<Rightarrow> error option \<times> loaded_preferences" where
  "load_row r preferences =
     (case row_get r ''student_id'' of
        Inl e \<Rightarrow> (Some e, preferences)
      | Inr student_id \<Rightarrow>
          (let prefs1 =
                 (if has_key student_id preferences then preferences
                  else AList.update student_id
                         \<lparr>loaded_weight =
                            (case map_of r ''priority'' of None \<Rightarrow> Some ''medium'' | Some w \<Rightarrow> w),
                          loaded_days = []\<rparr> preferences)
           in case stripped r ''day'' of
                Inl e \<Rightarrow> (Some e, prefs1)
              | Inr d \<Rightarrow>
                  (case stripped r ''1st_preference'' of
                     Inl e \<Rightarrow> (Some e, prefs1)
                   | Inr a \<Rightarrow>
                       (case stripped r ''2nd_preference'' of
                          Inl e \<Rightarrow> (Some e, prefs1)
                        | Inr b \<Rightarrow>
                            (case stripped r ''3rd_preference'' of
                               Inl e \<Rightarrow> (Some e, prefs1)
                             | Inr c \<Rightarrow>
                                 (case map_of prefs1 student_id of
                                    None \<Rightarrow>
                                      (Some (KeyError (case student_id of None \<Rightarrow> ''None''
                                                       | Some i \<Rightarrow> i)), prefs1)
                                  | Some data \<Rightarrow>
                                      (None,
                                       AList.update student_id
                                         (data\<lparr>loaded_days :=
                                            AList.update (lower d)
                                              \<lparr>pref_1st = a, pref_2nd = b, pref_3rd = c\<rparr>
                                              (loaded_days data)\<rparr>)
                                         prefs1)))))))"

text \<open>What the loader prints: the count after the loop, or the error from the handler.\<close>

datatype message = Loaded nat | Error_loading error

definition load_student_preferences :: "row list \<Rightarrow> message \<times> loaded_preferences" where
  "load_student_preferences rows =
     (case for_each_mut load_row rows [] of
        (None, preferences) \<Rightarrow> (Loaded (length preferences), preferences)
      | (Some e, preferences) \<Rightarrow> (Error_loading e, preferences))"

section \<open>Notions used to state the properties\<close>

subsection \<open>Reading and writing nested dictionaries\<close>

definition nested_get :: "('a \<times> ('b \<times> 'c) list) list \<Rightarrow> 'a \<Rightarrow> ('b \<times> 'c) list" where
  "nested_get d k = (case map_of d k of None \<Rightarrow> [] | Some m \<Rightarrow> m)"

text \<open>\<open>lookup2 d k1 k2\<close> is \<^verbatim>\<open>d[k1][k2]\<close> where both keys exist, \<open>None\<close> otherwise.\<close>

definition lookup2 :: "('a \<times> ('b \<times> 'c) list) list \<Rightarrow> 'a \<Rightarrow> 'b \<Rightarrow> 'c option" where
  "lookup2 d k1 k2 = map_of (nested_get d k1) k2"

definition nested_put ::
  "'a \<Rightarrow> 'b \<Rightarrow> 'c \<Rightarrow> ('a \<times> ('b \<times> 'c) list) list \<Rightarrow> ('a \<times> ('b \<times> 'c) list) list" where
  "nested_put k1 k2 v d = AList.update k1 (AList.update k2 v (nested_get d k1)) d"

subsection \<open>The contract of the maximum-flow solver\<close>

text \<open>The entries of a flow dictionary, edge by edge.\<close>

definition edge_flows :: "flow_dict \<Rightarrow> ((string \<times> string) \<times> int) list" where
  "edge_flows fd = concat (map (\<lambda>nf. map (\<lambda>tf. ((fst nf, fst tf), snd tf)) (snd nf)) fd)"

definition inflow :: "flow_dict \<Rightarrow> string \<Rightarrow> int" where
  "inflow fd n = sum_list (map snd (filter (\<lambda>e. snd (fst e) = n) (edge_flows fd)))"

definition outflow :: "flow_dict \<Rightarrow> string \<Rightarrow> int" where
  "outflow fd n = sum_list (map snd (filter (\<lambda>e. fst (fst e) = n) (edge_flows fd)))"

text \<open>Every entry of the flow dictionary is an edge of the graph.\<close>

definition flow_on_edges :: "graph \<Rightarrow> flow_dict \<Rightarrow> bool" where
  "flow_on_edges G fd = list_all (\<lambda>e. has_key (fst e) (edges G)) (edge_flows fd)"

definition within_capacity :: "graph \<Rightarrow> ((string \<times> string) \<times> int) \<Rightarrow> bool" where
  "within_capacity G e =
     (case map_of (edges G) (fst e) of
        None \<Rightarrow> False
      | Some cw \<Rightarrow> 0 \<le> snd e \<and> snd e \<le> fst cw)"

text \<open>
  A flow: a dictionary of dictionaries (no key twice), every entry on an edge and
  between 0 and the edge's capacity, and what enters a node other than the source and
  the sink leaves it.
\<close>

definition valid_flow :: "graph \<Rightarrow> flow_dict \<Rightarrow> bool" where
  "valid_flow G fd =
     (distinct (map fst fd) \<and> list_all (\<lambda>nf. distinct (map fst (snd nf))) fd \<and>
      list_all (within_capacity G) (edge_flows fd) \<and>
      list_all (\<lambda>n. n = ''source'' \<or> n = ''sink'' \<or> inflow fd n = outflow fd n) (nodes G))"

definition reports_edges :: "solver \<Rightarrow> bool" where
  "reports_edges solve = (\<forall>G fd. solve G = Inr fd \<longrightarrow> flow_on_edges G fd)"

definition returns_flows :: "solver \<Rightarrow> bool" where
  "returns_flows solve = (\<forall>G fd. solve G = Inr fd \<longrightarrow> valid_flow G fd)"

subsection \<open>A small solver and sample inputs for the concrete instances\<close>

text \<open>
  The networks of \<open>create_priority_network\<close> have three layers, and a student-day node
  has at most one outgoing edge.  \<open>first_fit\<close> routes one unit along
  source \<open>\<rightarrow>\<close> student-day \<open>\<rightarrow>\<close> activity-day \<open>\<rightarrow>\<close> sink for each student-day node in turn
  while the edges have room; \<open>checked\<close> hands a candidate flow on only if it is a flow.
\<close>

definition successors :: "graph \<Rightarrow> string \<Rightarrow> string list" where
  "successors G u = map (\<lambda>e. snd (fst e)) (filter (\<lambda>e. fst (fst e) = u) (edges G))"

definition capacity_of :: "graph \<Rightarrow> string \<Rightarrow> string \<Rightarrow> int" where
  "capacity_of G u v = (case map_of (edges G) (u, v) of None \<Rightarrow> 0 | Some cw \<Rightarrow> fst cw)"

definition flow_of :: "((string \<times> string) \<times> int) list \<Rightarrow> string \<Rightarrow> string \<Rightarrow> int" where
  "flow_of fl u v = (case map_of fl (u, v) of None \<Rightarrow> 0 | Some f \<Rightarrow> f)"

definition push ::
  "string \<Rightarrow> string \<Rightarrow> ((string \<times> string) \<times> int) list \<Rightarrow> ((string \<times> string) \<times> int) list" where
  "push u v fl = AList.update (u, v) (flow_of fl u v + 1) fl"

definition route ::
  "graph \<Rightarrow> string \<Rightarrow> ((string \<times> string) \<times> int) list \<Rightarrow> ((string \<times> string) \<times> int) list" where
  "route G s fl =
     (case filter (\<lambda>t. flow_of fl s t < capacity_of G s t \<and>
                       flow_of fl t ''sink'' < capacity_of G t ''sink'') (successors G s) of
        [] \<Rightarrow> fl
      | t # _ \<Rightarrow> if flow_of fl ''source'' s < capacity_of G ''source'' s
                 then push t ''sink'' (push s t (push ''source'' s fl)) else fl)"

definition first_fit :: "graph \<Rightarrow> flow_dict" where
  "first_fit G =
     (let fl = fold (route G) (successors G ''source'') []
      in map (\<lambda>u. (u, map (\<lambda>v. (v, flow_of fl u v)) (successors G u))) (nodes G))"

definition checked :: "(graph \<Rightarrow> flow_dict) \<Rightarrow> solver" where
  "checked f G = (if valid_flow G (f G) then Inr (f G) else Inl SolverFailure)"

definition prefs3 :: "string \<Rightarrow> string \<Rightarrow> string \<Rightarrow> day_prefs" where
  "prefs3 a b c = \<lparr>pref_1st = a, pref_2nd = b, pref_3rd = c\<rparr>"

text \<open>One of the orders in which a run can visit \<open>DAYS\<close>.\<close>

definition mon_to_thu :: "string list" where
  "mon_to_thu = [''mon'', ''tue'', ''wed'', ''thu'']"

text \<open>A student with the same three choices on each of the four days.\<close>

definition student :: "string \<Rightarrow> string \<Rightarrow> string \<Rightarrow> string \<Rightarrow> string \<Rightarrow> string \<times> student_data" where
  "student sid w a b c = (sid, \<lparr>weight = w, days = map (\<lambda>d. (d, prefs3 a b c)) mon_to_thu\<rparr>)"

definition sample_preferences :: preferences where
  "sample_preferences =
     [student ''S1'' ''high'' ''x'' ''y'' ''z'',
      student ''S2'' ''low'' ''x'' ''y'' ''z'',
      student ''T3'' ''medium'' ''y'' ''x'' ''z'']"

definition all_days :: "string \<Rightarrow> (string \<times> string) list" where
  "all_days a = map (\<lambda>d. (d, a)) mon_to_thu"

definition sample_assignments :: assignments where
  "sample_assignments = [(''S1'', all_days ''x''), (''S2'', all_days ''x'')]"

definition sample_ledger :: ledger where
  "sample_ledger = map (\<lambda>d. (d, [(''x'', 13), (''y'', 15), (''z'', 15)])) mon_to_thu"

definition lookup_keys_S :: "assignments \<Rightarrow> bool" where
  "lookup_keys_S ga = (fst ` set ga \<subseteq> Collect startswith_S)"

text \<open>The fields that the loader strips.\<close>

definition stripped_fields :: "string list" where
  "stripped_fields = [''day'', ''1st_preference'', ''2nd_preference'', ''3rd_preference'']"

text \<open>
  A file of three lines under its header; the second line is short of its last field.
\<close>

definition header :: "string list" where
  "header = [''student_id'', ''priority'', ''day'',
             ''1st_preference'', ''2nd_preference'', ''3rd_preference'']"

definition short_file :: "string list list" where
  "short_file =
     [header,
      [''S1'', ''high'', '' Mon '', ''x'', ''y'', ''z''],
      [''S2'', ''low'', ''mon'', ''x'', ''y''],
      [''S3'', ''high'', ''mon'', ''x'', ''y'', ''z'']]"

definition row_S1 :: row where
  "row_S1 = reader_row header [''S1'', ''high'', '' Mon '', ''x'', ''y'', ''z'']"

definition short_row :: row where
  "short_row = reader_row header [''S2'', ''low'', ''mon'', ''x'', ''y'']"

definition row_S3 :: row where
  "row_S3 = reader_row header [''S3'', ''high'', ''mon'', ''x'', ''y'', ''z'']"

definition loaded_S1 :: loaded_preferences where
  "loaded_S1 =
     [(Some ''S1'', \<lparr>loaded_weight = Some ''high'',
                     loaded_days = [(''mon'', prefs3 ''x'' ''y'' ''z'')]\<rparr>)]"

definition partial_preferences :: preferences where
  "partial_preferences =
     [student ''S1'' ''high'' ''x'' ''y'' ''z'',
      (''S2'', \<lparr>weight = ''high'', days = [(''mon'', prefs3 ''x'' ''y'' ''z'')]\<rparr>)]"

text \<open>The attributes of an edge of a network that was built without an exception.\<close>

definition edge_of :: "error + graph \<Rightarrow> string \<times> string \<Rightarrow> (int \<times> int) option" where
  "edge_of r uv = (case r of Inl e \<Rightarrow> None | Inr G \<Rightarrow> map_of (edges G) uv)"

definition one_student :: preferences where
  "one_student = [student ''S1'' ''high'' ''x'' ''y'' ''z'']"

definition full_ledger :: ledger where
  "full_ledger = map (\<lambda>d. (d, [(''x'', 15), (''y'', 15), (''z'', 15)])) mon_to_thu"

definition ledger_after_S1 :: ledger where
  "ledger_after_S1 = map (\<lambda>d. (d, [(''x'', 14), (''y'', 15), (''z'', 15)])) mon_to_thu"

subsection \<open>The order of the passes, written out\<close>

text \<open>
  The three passes of a tier one after the other: first choices, then second, then
  third, each pass starting from the assignments and the ledger that the pass before it
  left.
\<close>

definition levels_in_order :: "solver \<Rightarrow> preferences \<Rightarrow> ledger \<Rightarrow> error + alloc_state" where
  "levels_in_order solve students cap =
     (case run_pass solve students L1st ([], cap) of
        Inl e \<Rightarrow> Inl e
      | Inr after_1st \<Rightarrow>
          (case run_pass solve students L2nd after_1st of
             Inl e \<Rightarrow> Inl e
           | Inr after_2nd \<Rightarrow> run_pass solve students L3rd after_2nd))"

text \<open>
  The three tiers one after the other: high, then medium, then low, each tier starting
  from the ledger that the tier before it left, its assignments merged into the result
  once its three passes are over.
\<close>

definition tiers_in_order :: "solver \<Rightarrow> preferences \<Rightarrow> ledger \<Rightarrow> error + alloc_state" where
  "tiers_in_order solve preferences cap =
     (case levels_in_order solve (priority_group ''high'' preferences) cap of
        Inl e \<Rightarrow> Inl e
      | Inr (high, cap_high) \<Rightarrow>
          (case levels_in_order solve (priority_group ''medium'' preferences) cap_high of
             Inl e \<Rightarrow> Inl e
           | Inr (medium, cap_medium) \<Rightarrow>
               (case levels_in_order solve (priority_group ''low'' preferences) cap_medium of
                  Inl e \<Rightarrow> Inl e
                | Inr (low, cap_low) \<Rightarrow>
                    Inr (dict_update (dict_update (dict_update [] high) medium) low, cap_low))))"

text \<open>
  Two students who want the same activity on every day, the low-priority one listed
  first, and a ledger in which that activity has one seat a day.
\<close>

definition contended :: preferences where
  "contended = [student ''S1'' ''low'' ''x'' ''y'' ''z'', student ''S2'' ''high'' ''x'' ''y'' ''z'']"

definition one_seat :: ledger where
  "one_seat = map (\<lambda>d. (d, [(''x'', 1), (''y'', 15), (''z'', 15)])) mon_to_thu"

subsection \<open>Well-formed inputs and ranked choices\<close>

text \<open>
  A Python dictionary has no key twice.  \<open>well_formed\<close> says so of the association lists
  that stand for the preferences and for the days of each student.
\<close>

definition well_formed :: "preferences \<Rightarrow> bool" where
  "well_formed preferences =
     (distinct (map fst preferences) \<and>
      (\<forall>sd \<in> set preferences. distinct (map fst (days (snd sd)))))"

text \<open>\<open>act\<close> is one of the three choices that student \<open>sid\<close> ranks for \<open>day\<close>.\<close>

definition ranked :: "preferences \<Rightarrow> string \<Rightarrow> string \<Rightarrow> string \<Rightarrow> bool" where
  "ranked preferences sid day act =
     (\<exists>sd \<in> set preferences. fst sd = sid \<and>
        (\<exists>dp \<in> set (days (snd sd)). fst dp = day \<and> act \<in> set (pref_values (snd dp))))"

text \<open>Every entry of an assignment mapping is a ranked choice of its student for its day.\<close>

definition only_ranked :: "preferences \<Rightarrow> assignments \<Rightarrow> bool" where
  "only_ranked preferences ga =
     (\<forall>sm \<in> set ga. \<forall>da \<in> set (snd sm). ranked preferences (fst sm) (fst da) (snd da))"

text \<open>
  The edge from a student-day node to the activity-day node of the level's choice, for
  some (student, day) record of \<open>students\<close>.
\<close>

definition choice_edge :: "preferences \<Rightarrow> pref_level \<Rightarrow> string \<times> string \<Rightarrow> bool" where
  "choice_edge students lvl uv =
     (\<exists>sd \<in> set students. \<exists>dp \<in> set (days (snd sd)).
        uv = (fst sd @ ''_'' @ fst dp, fst dp @ ''_'' @ pref_of lvl (snd dp)))"

text \<open>Every edge of the graph leaves the source, enters the sink or is a choice edge.\<close>

definition pass_edges :: "preferences \<Rightarrow> pref_level \<Rightarrow> graph \<Rightarrow> bool" where
  "pass_edges students lvl G =
     (\<forall>uv \<in> fst ` set (edges G). fst uv = ''source'' \<or> snd uv = ''sink'' \<or> choice_edge students lvl uv)"

subsection \<open>Dictionaries and the states between the passes\<close>

text \<open>
  A dictionary of dictionaries: no key twice, neither outside nor inside.  Then a
  (student, day) pair has at most one activity.
\<close>

definition dict_like :: "('a \<times> ('b \<times> 'c) list) list \<Rightarrow> bool" where
  "dict_like d = (distinct (map fst d) \<and> (\<forall>km \<in> set d. distinct (map fst (snd km))))"

text \<open>
  The state of the loop over the tiers after its first \<open>n\<close> rounds, and the state of the
  loop over the levels of a tier after its first \<open>k\<close> passes.
\<close>

definition after_tiers :: "solver \<Rightarrow> preferences \<Rightarrow> ledger \<Rightarrow> nat \<Rightarrow> error + alloc_state" where
  "after_tiers solve preferences cap n =
     for_each (process_group solve preferences) (take n [''high'', ''medium'', ''low'']) ([], cap)"

definition after_passes :: "solver \<Rightarrow> preferences \<Rightarrow> ledger \<Rightarrow> nat \<Rightarrow> error + alloc_state" where
  "after_passes solve students cap k =
     for_each (run_pass solve students) (take k [L1st, L2nd, L3rd]) ([], cap)"

text \<open>The identifiers of the students whose weight is one of \<open>W\<close>.\<close>

definition ids_of :: "preferences \<Rightarrow> string set \<Rightarrow> string set" where
  "ids_of preferences W = fst ` {sd \<in> set preferences. weight (snd sd) \<in> W}"

text \<open>
  The assignments of a tier form a dictionary whose keys are students of the tier.
\<close>

definition group_dict :: "preferences \<Rightarrow> assignments \<Rightarrow> bool" where
  "group_dict students ga = (dict_like ga \<and> fst ` set ga \<subseteq> fst ` set students)"

section \<open>Properties\<close>

subsection \<open>Loops and nested dictionaries\<close>

lemma for_each_mut_inv:
  assumes "for_each_mut body xs s = (e, s')" and "P s"
    and "\<And>x t e' t'. x \<in> set xs \<Longrightarrow> P t \<Longrightarrow> body x t = (e', t') \<Longrightarrow> P t'"
  shows "P s'"
  using assms
proof (induction xs arbitrary: s)
  case Nil
  then show ?case by simp
next
  case (Cons x xs)
  obtain e1 s1 where b: "body x s = (e1, s1)" by (cases "body x s")
  have p1: "P s1" using Cons.prems(2,3) b by (meson list.set_intros(1))
  show ?case
  proof (cases e1)
    case None
    then have "for_each_mut body xs s1 = (e, s')" using Cons.prems(1) b by simp
    then show ?thesis using Cons.IH p1 Cons.prems(3) by (meson list.set_intros(2))
  next
    case (Some a)
    then have "s' = s1" using Cons.prems(1) b by simp
    then show ?thesis using p1 by simp
  qed
qed

lemma for_each_inv:
  assumes "for_each body xs s = Inr s'" and "P s"
    and "\<And>x t t'. x \<in> set xs \<Longrightarrow> P t \<Longrightarrow> body x t = Inr t' \<Longrightarrow> P t'"
  shows "P s'"
  using assms
proof (induction xs arbitrary: s)
  case Nil
  then show ?case by simp
next
  case (Cons x xs)
  from Cons.prems(1) obtain s1 where b: "body x s = Inr s1" and r: "for_each body xs s1 = Inr s'"
    by (auto split: sum.splits)
  have p1: "P s1" using Cons.prems(2,3) b by (meson list.set_intros(1))
  show ?case using Cons.IH[OF r p1] Cons.prems(3) by (meson list.set_intros(2))
qed

lemma lookup2_nested_put:
  "lookup2 (nested_put k1 k2 v d) a b = (if a = k1 \<and> b = k2 then Some v else lookup2 d a b)"
  by (simp add: lookup2_def nested_put_def nested_get_def update_conv')

lemma keys_nested_put: "fst ` set (nested_put k1 k2 v d) = insert k1 (fst ` set d)"
  by (simp add: nested_put_def dom_update)

lemma ledger_get_lookup2:
  "ledger_get cap day act = Inr c \<longleftrightarrow> lookup2 cap day act = Some c"
  by (auto simp: ledger_get_def lookup2_def nested_get_def split: option.splits)

lemma keys_dict_update: "fst ` set (dict_update a b) = fst ` set a \<union> fst ` set b"
  unfolding dict_update_def
  by (induction b arbitrary: a) (simp_all add: dom_update case_prod_beta Un_commute)

subsection \<open>The commit step, in terms of the nested dictionaries\<close>

lemma commit_flow_eq:
  "commit_flow sid day tf (ga, cap) =
     (if snd tf > 0 \<and> fst tf \<noteq> ''sink'' then
        (case split_first (fst tf) of
           [d, activity] \<Rightarrow>
             if lookup2 ga sid day \<noteq> None then (None, (ga, cap))
             else (case ledger_get cap day activity of
                     Inl e \<Rightarrow> (Some e, (nested_put sid day activity ga, cap))
                   | Inr c \<Rightarrow> (None, (nested_put sid day activity ga,
                                      nested_put day activity (c - 1) cap)))
         | _ \<Rightarrow> (Some ValueError, (ga, cap)))
      else (None, (ga, cap)))"
proof -
  have m: "(case map_of (if has_key sid ga then ga else AList.update sid [] ga) sid of
              None \<Rightarrow> [] | Some m \<Rightarrow> m) = nested_get ga sid"
    by (auto simp: has_key_def nested_get_def update_conv' split: option.splits)
  have k: "has_key day (nested_get ga sid) \<longleftrightarrow> lookup2 ga sid day \<noteq> None"
    by (simp add: has_key_def lookup2_def)
  have k3: "lookup2 ga sid day \<noteq> None \<Longrightarrow> has_key sid ga"
    by (auto simp: has_key_def lookup2_def nested_get_def split: option.splits)
  have u: "AList.update sid x (if has_key sid ga then ga else AList.update sid [] ga)
         = AList.update sid x ga" for x
    by simp
  show ?thesis
    unfolding commit_flow_def Let_def fst_conv snd_conv m k u
    by (auto simp: nested_put_def nested_get_def k3 split: list.splits sum.splits)
qed

text \<open>What one node of the flow dictionary can do: nothing, or the commits of a student-day.\<close>

lemma process_node_cases:
  assumes "process_node nf st = (e, st')"
  obtains (skip) "st' = st"
  | (student) sid day where "split_all (fst nf) = [sid, day]" "startswith_S sid"
      "fst nf \<noteq> ''source''" "for_each_mut (commit_flow sid day) (snd nf) st = (e, st')"
  using assms
  by (auto simp: process_node_def Let_def split: if_splits list.splits)

subsection \<open>The sample run\<close>

lemma sample_allocate:
  "allocate mon_to_thu (checked first_fit) sample_preferences =
     Inr (sample_assignments, sample_ledger)"
  by code_simp

lemma sample_satisfaction:
  "preference_satisfaction sample_preferences sample_assignments =
     Inr \<lparr>sat_1st = 8, sat_2nd = 0, sat_3rd = 0, sat_other = 0\<rparr>"
  by code_simp

lemma sample_nonempty: "sample_assignments \<noteq> []"
  by (simp add: sample_assignments_def)

lemma sample_run:
  "assign_students_to_activities mon_to_thu (checked first_fit) G sample_preferences =
     (Some sample_assignments, Some \<lparr>sat_1st = 8, sat_2nd = 0, sat_3rd = 0, sat_other = 0\<rparr>)"
  unfolding assign_students_to_activities_def
  by (simp only: sample_allocate sample_satisfaction sample_nonempty sum.case prod.case if_False)

subsection \<open>The weighted network is never read\<close>

text \<open>
  Claim C9.  The weight-based priority mechanism is dead logic: the assignments and the
  satisfaction counts that \<open>assign_students_to_activities\<close> returns do not depend on the
  graph \<open>G\<close> it is handed, so two runs that differ only in \<open>G\<close> return the same result
  (with any solver, and in whatever order the run visits the days).
\<close>

theorem graph_argument_is_dead:
  "assign_students_to_activities day_order solve G preferences =
   assign_students_to_activities day_order solve G' preferences"
  by (simp add: assign_students_to_activities_def)

theorem graph_argument_is_dead_witness:
  "assign_students_to_activities mon_to_thu (checked first_fit)
     (add_edge ''source'' ''S1_mon'' 1 0 empty_graph) sample_preferences =
   assign_students_to_activities mon_to_thu (checked first_fit) empty_graph sample_preferences"
  by (rule graph_argument_is_dead)

subsection \<open>The commit step and the ledger\<close>

text \<open>
  Claim C8, as stated, fails: the commit step has no check of the remaining count.
  With no seat left it still records the assignment, raises nothing and leaves the
  count at \<open>-1\<close>.
\<close>

theorem commit_at_zero_counterexample:
  "commit_flow ''S1'' ''mon'' (''mon_x'', 1) ([], [(''mon'', [(''x'', 0)])]) =
     (None, ([(''S1'', [(''mon'', ''x'')])], [(''mon'', [(''x'', - 1)])]))"
  by (simp add: commit_flow_def has_key_def ledger_get_def)

text \<open>
  Claim C8, amended.  When the commit step records a new assignment for a
  (student, day) pair (positive flow into a target other than the sink, the pair not yet
  assigned) and the ledger has an entry \<open>c\<close> for the (day, activity), it raises nothing,
  records the activity and leaves \<open>c - 1\<close> in the ledger, whatever \<open>c\<close> is; every other
  entry of the ledger is unchanged.
\<close>

theorem commit_decrements_unconditionally:
  assumes "0 < flow" and "target \<noteq> ''sink''" and "split_first target = [d, activity]"
    and "lookup2 ga student_id day = None"
    and "ledger_get cap day activity = Inr c"
  shows "commit_flow student_id day (target, flow) (ga, cap) =
           (None, (nested_put student_id day activity ga, nested_put day activity (c - 1) cap)) \<and>
         lookup2 (nested_put student_id day activity ga) student_id day = Some activity \<and>
         ledger_get (nested_put day activity (c - 1) cap) day activity = Inr (c - 1) \<and>
         (\<forall>d' a'. (d', a') \<noteq> (day, activity) \<longrightarrow>
            lookup2 (nested_put day activity (c - 1) cap) d' a' = lookup2 cap d' a')"
proof -
  have "commit_flow student_id day (target, flow) (ga, cap) =
           (None, (nested_put student_id day activity ga, nested_put day activity (c - 1) cap))"
    using assms by (simp add: commit_flow_eq)
  then show ?thesis
    by (simp add: lookup2_nested_put ledger_get_lookup2)
qed

theorem commit_decrements_unconditionally_witness:
  "commit_flow ''S1'' ''mon'' (''mon_x'', 1) ([], [(''mon'', [(''x'', 15), (''y'', 15)])]) =
     (None, ([(''S1'', [(''mon'', ''x'')])], [(''mon'', [(''x'', 14), (''y'', 15)])]))"
proof -
  have h: "(0::int) < 1" "''mon_x'' \<noteq> ''sink''" "split_first ''mon_x'' = [''mon'', ''x'']"
    "lookup2 ([] :: assignments) ''S1'' ''mon'' = None"
    "ledger_get [(''mon'', [(''x'', 15), (''y'', 15)])] ''mon'' ''x'' = Inr 15"
    by (simp_all add: lookup2_def nested_get_def ledger_get_def)
  have "commit_flow ''S1'' ''mon'' (''mon_x'', 1) ([], [(''mon'', [(''x'', 15), (''y'', 15)])]) =
          (None, (nested_put ''S1'' ''mon'' ''x'' [],
                  nested_put ''mon'' ''x'' (15 - 1) [(''mon'', [(''x'', 15), (''y'', 15)])]))"
    using commit_decrements_unconditionally[OF h] by blast
  then show ?thesis by (simp add: nested_put_def nested_get_def)
qed

subsection \<open>Only identifiers that begin with S are committed\<close>

lemma commit_flow_keys:
  assumes "commit_flow sid day tf st = (e, st')"
  shows "fst ` set (fst st') \<subseteq> insert sid (fst ` set (fst st))"
proof -
  obtain ga cap where st: "st = (ga, cap)" by (cases st)
  have "fst st' = ga \<or> (\<exists>a. fst st' = nested_put sid day a ga)"
    using assms unfolding st commit_flow_eq
    by (auto split: if_splits list.splits sum.splits)
  then show ?thesis unfolding st
    by (elim disjE exE) (simp_all add: keys_nested_put subset_insertI)
qed

lemma commit_flow_keys_S:
  assumes "commit_flow sid day tf st = (e, st')" "lookup_keys_S (fst st)" "startswith_S sid"
  shows "lookup_keys_S (fst st')"
proof -
  have "fst ` set (fst st') \<subseteq> insert sid (fst ` set (fst st))"
    by (rule commit_flow_keys[OF assms(1)])
  moreover have "insert sid (fst ` set (fst st)) \<subseteq> Collect startswith_S"
    using assms(2,3) by (simp add: lookup_keys_S_def)
  ultimately show ?thesis unfolding lookup_keys_S_def by (rule subset_trans)
qed

lemma process_node_keys_S:
  assumes "process_node nf st = (e, st')" "lookup_keys_S (fst st)"
  shows "lookup_keys_S (fst st')"
  using assms(1)
proof (cases rule: process_node_cases)
  case skip
  then show ?thesis using assms(2) by simp
next
  case (student sid day)
  show ?thesis
    by (rule for_each_mut_inv[where P="\<lambda>t. lookup_keys_S (fst t)", OF student(4) assms(2)])
       (rule commit_flow_keys_S[OF _ _ student(2)])
qed

lemma run_pass_cases:
  assumes "run_pass solve students lvl st = Inr st'"
  obtains (failed) G where "create_priority_network students (snd st) lvl = Inr G" "st' = st"
  | (solved) G fd e where "create_priority_network students (snd st) lvl = Inr G"
      "solve G = Inr fd" "for_each_mut process_node fd st = (e, st')"
proof -
  from assms obtain G where G: "create_priority_network students (snd st) lvl = Inr G"
    by (auto simp: run_pass_def split: sum.splits)
  show ?thesis
  proof (cases "solve G")
    case (Inl e)
    then have "st' = st" using assms G by (simp add: run_pass_def)
    then show ?thesis using failed G by blast
  next
    case (Inr fd)
    then have "st' = snd (for_each_mut process_node fd st)"
      using assms G by (simp add: run_pass_def)
    then have "for_each_mut process_node fd st = (fst (for_each_mut process_node fd st), st')"
      by simp
    then show ?thesis using solved G Inr by blast
  qed
qed

lemma run_pass_keys_S:
  assumes "run_pass solve students lvl st = Inr st'" "lookup_keys_S (fst st)"
  shows "lookup_keys_S (fst st')"
  using assms(1)
proof (cases rule: run_pass_cases)
  case (failed G)
  then show ?thesis using assms(2) by simp
next
  case (solved G fd e)
  show ?thesis
    by (rule for_each_mut_inv[where P="\<lambda>t. lookup_keys_S (fst t)", OF solved(3) assms(2)])
       (rule process_node_keys_S)
qed

lemma lookup_keys_S_Nil: "lookup_keys_S []"
  by (simp add: lookup_keys_S_def)

lemma assign_priority_group_keys_S:
  assumes "assign_priority_group solve students label cap = Inr st'"
  shows "lookup_keys_S (fst st')"
proof -
  have "lookup_keys_S (fst (([] :: assignments), cap))" by (simp add: lookup_keys_S_Nil)
  with assms[unfolded assign_priority_group_def] show ?thesis
    by (rule for_each_inv[where P="\<lambda>t. lookup_keys_S (fst t)"]) (rule run_pass_keys_S)
qed

lemma process_group_cases:
  assumes "process_group solve preferences label st = Inr st'"
  obtains new_assignments where
    "assign_priority_group solve (priority_group label preferences) label (snd st) =
       Inr (new_assignments, snd st')"
    "fst st' = dict_update (fst st) new_assignments"
  using assms by (auto simp: process_group_def split: sum.splits prod.splits)

lemma process_group_keys_S:
  assumes "process_group solve preferences label st = Inr st'" "lookup_keys_S (fst st)"
  shows "lookup_keys_S (fst st')"
  using assms(1)
proof (cases rule: process_group_cases)
  case (1 new_assignments)
  have "lookup_keys_S (fst (new_assignments, snd st'))"
    by (rule assign_priority_group_keys_S[OF 1(1)])
  then show ?thesis using assms(2) 1(2)
    by (simp add: lookup_keys_S_def keys_dict_update)
qed

lemma allocate_cases:
  assumes "allocate day_order solve preferences = Inr st'"
  obtains cap where "init_capacity day_order preferences = Inr cap"
    "for_each (process_group solve preferences) [''high'', ''medium'', ''low''] ([], cap) = Inr st'"
  using assms by (auto simp: allocate_def split: sum.splits)

lemma allocate_keys_S:
  assumes "allocate day_order solve preferences = Inr st'"
  shows "lookup_keys_S (fst st')"
  using assms
proof (cases rule: allocate_cases)
  case (1 cap)
  have "lookup_keys_S (fst (([] :: assignments), cap))" by (simp add: lookup_keys_S_Nil)
  with 1(2) show ?thesis
    by (rule for_each_inv[where P="\<lambda>t. lookup_keys_S (fst t)"]) (rule process_group_keys_S)
qed

lemma assign_students_allocate:
  assumes "assign_students_to_activities day_order solve G preferences = (Some asg, sat)"
  shows "\<exists>cap. allocate day_order solve preferences = Inr (asg, cap)"
  using assms
  by (auto simp: assign_students_to_activities_def split: sum.splits prod.splits if_splits)

text \<open>
  Claim C10.  A student whose identifier does not begin with \<open>S\<close> is never committed:
  whatever the solver returns, whatever the capacities and preferences, the assignment
  mapping of a run has no entry for that student.
\<close>

theorem non_S_student_never_assigned:
  assumes "assign_students_to_activities day_order solve G preferences = (Some asg, sat)"
    and "\<not> startswith_S student_id"
  shows "map_of asg student_id = None"
proof -
  from assign_students_allocate[OF assms(1)] obtain cap where
    "allocate day_order solve preferences = Inr (asg, cap)" by blast
  then have "lookup_keys_S (fst (asg, cap))" by (rule allocate_keys_S)
  then have "student_id \<notin> fst ` set asg" using assms(2) by (auto simp: lookup_keys_S_def)
  then show ?thesis by (simp add: map_of_eq_None_iff)
qed

theorem non_S_student_never_assigned_witness:
  "map_of sample_preferences ''T3'' \<noteq> None \<and> map_of sample_assignments ''T3'' = None"
proof -
  have "\<not> startswith_S ''T3''" by simp
  then have "map_of sample_assignments ''T3'' = None"
    by (rule non_S_student_never_assigned[OF sample_run])
  moreover have "map_of sample_preferences ''T3'' \<noteq> None"
    by (simp add: sample_preferences_def student_def)
  ultimately show ?thesis by simp
qed

subsection \<open>The loader stops at the first malformed row\<close>

lemma for_each_mut_append:
  "for_each_mut body (xs @ ys) s =
     (case for_each_mut body xs s of
        (Some e, s') \<Rightarrow> (Some e, s')
      | (None, s') \<Rightarrow> for_each_mut body ys s')"
  by (induction xs arbitrary: s) (auto split: prod.splits option.splits)

lemma load_row_missing_field:
  assumes "k \<in> set stripped_fields" and "map_of r k = Some None"
  shows "\<exists>e. fst (load_row r p) = Some e"
  using assms
  by (auto simp: stripped_fields_def load_row_def row_get_def stripped_def Let_def
      split: option.splits sum.splits)

lemma load_row_retains:
  assumes "map_of p sid = Some d" and "load_row r p = (Some e, p')"
  shows "map_of p' sid = Some d"
  using assms
  by (auto simp: load_row_def row_get_def Let_def has_key_def update_conv'
      split: option.splits if_splits sum.splits)

text \<open>
  A line that is short of the first column only as far as the identifier goes (the
  identifier is \<^verbatim>\<open>None\<close>, the stripped fields are there) raises nothing: it is loaded
  under the key \<^verbatim>\<open>None\<close>.
\<close>

lemma row_without_student_id_is_loaded:
  assumes "map_of r ''student_id'' = Some None"
    and "\<forall>k \<in> set stripped_fields. \<exists>v. map_of r k = Some (Some v)"
  shows "fst (load_row r p) = None \<and> has_key None (snd (load_row r p))"
proof -
  from assms(2) obtain d a b c where f:
    "map_of r ''day'' = Some (Some d)" "map_of r ''1st_preference'' = Some (Some a)"
    "map_of r ''2nd_preference'' = Some (Some b)" "map_of r ''3rd_preference'' = Some (Some c)"
    by (auto simp: stripped_fields_def)
  show ?thesis
    by (auto simp: load_row_def row_get_def stripped_def assms(1) f Let_def has_key_def
        update_conv' split: option.splits)
qed

text \<open>
  Claim C7, as stated, fails: the \<^verbatim>\<open>try\<close> wraps the whole loop.  In a file of three
  lines whose second line is short of its last field, the third line is never loaded, no
  count is reported, and the short line's own student is left behind with no day.
\<close>

theorem loader_continues_counterexample:
  "load_student_preferences (DictReader short_file) =
   (Error_loading AttributeError,
    [(Some ''S1'', \<lparr>loaded_weight = Some ''high'',
                    loaded_days = [(''mon'', prefs3 ''x'' ''y'' ''z'')]\<rparr>),
     (Some ''S2'', \<lparr>loaded_weight = Some ''low'', loaded_days = []\<rparr>)])"
  by code_simp

text \<open>
  Claim C7, amended.  When the loader meets a row in which the day or one of the three
  preferences is missing (the reader gave \<^verbatim>\<open>None\<close> for it), loading stops at that row:
  whatever rows follow are not read, the loader prints the error and not the number of
  loaded records, and every record built from the rows before it is retained as it was.
\<close>

theorem loader_stops_at_malformed_row:
  assumes "for_each_mut load_row before [] = (None, p)"
    and "k \<in> set stripped_fields" and "map_of bad k = Some None"
  shows "\<exists>e p'. (\<forall>rest. load_student_preferences (before @ bad # rest) = (Error_loading e, p')) \<and>
                (\<forall>sid d. map_of p sid = Some d \<longrightarrow> map_of p' sid = Some d)"
proof -
  from load_row_missing_field[OF assms(2,3)] obtain e p' where b: "load_row bad p = (Some e, p')"
    by (metis prod.collapse)
  have "load_student_preferences (before @ bad # rest) = (Error_loading e, p')" for rest
    by (simp add: load_student_preferences_def for_each_mut_append assms(1) b)
  moreover have "\<forall>sid d. map_of p sid = Some d \<longrightarrow> map_of p' sid = Some d"
    using load_row_retains[OF _ b] by blast
  ultimately show ?thesis by blast
qed

theorem loader_stops_at_malformed_row_witness:
  "DictReader short_file = [row_S1] @ short_row # [row_S3] \<and>
   for_each_mut load_row [row_S1] [] = (None, loaded_S1) \<and>
   ''3rd_preference'' \<in> set stripped_fields \<and> map_of short_row ''3rd_preference'' = Some None \<and>
   (\<exists>e p'. (\<forall>rest. load_student_preferences ([row_S1] @ short_row # rest) = (Error_loading e, p')) \<and>
            (\<forall>sid d. map_of loaded_S1 sid = Some d \<longrightarrow> map_of p' sid = Some d))"
proof -
  have r: "DictReader short_file = [row_S1] @ short_row # [row_S3]"
    by (simp add: DictReader_def short_file_def row_S1_def short_row_def row_S3_def)
  have a: "for_each_mut load_row [row_S1] [] = (None, loaded_S1)"
    by code_simp
  have b: "''3rd_preference'' \<in> set stripped_fields" by (simp add: stripped_fields_def)
  have c: "map_of short_row ''3rd_preference'' = Some None" by code_simp
  show ?thesis using r a b c loader_stops_at_malformed_row[OF a b c] by blast
qed

subsection \<open>A student without a record for one of the days\<close>

lemma for_each_fails:
  assumes "x \<in> set xs" and "\<And>s. \<exists>e. body x s = Inl e"
  shows "\<exists>e. for_each body xs s = Inl e"
  using assms(1)
proof (induction xs arbitrary: s)
  case Nil
  then show ?case by simp
next
  case (Cons y ys)
  show ?case
  proof (cases "body y s")
    case (Inl e)
    then show ?thesis by simp
  next
    case (Inr s1)
    have "y \<noteq> x" using Inr assms(2)[of s] by auto
    then have "x \<in> set ys" using Cons.prems by simp
    then show ?thesis using Cons.IH Inr by simp
  qed
qed

lemma init_capacity_missing_day:
  assumes "(sid, data) \<in> set preferences" and "day \<in> set day_order"
    and "map_of (days data) day = None"
  shows "\<exists>e. init_capacity day_order preferences = Inl e"
proof -
  have one: "\<exists>e. init_student_day day (sid, data) cap = Inl e" for cap
    using assms(3) by (simp add: init_student_day_def)
  have all: "\<exists>e. for_each (init_student_day day) preferences cap = Inl e" for cap
    by (rule for_each_fails[OF assms(1)]) (rule one)
  show ?thesis
    unfolding init_capacity_def
    by (rule for_each_fails[OF assms(2)]) (rule all)
qed

text \<open>
  Claim C6 does not hold of the code.  Initialising the ledger reads
  \<^verbatim>\<open>student_data['days'][day]\<close> for every student and every day of \<open>DAYS\<close>; a student
  without a record for one of these days raises \<^verbatim>\<open>KeyError\<close> there, and the handler of
  \<open>assign_students_to_activities\<close> returns \<^verbatim>\<open>(None, None)\<close>: no student is assigned,
  whatever the solver does and in whatever order the run visits the days.
\<close>

theorem missing_day_fails_whole_run:
  assumes "iteration_order day_order"
    and "(sid, data) \<in> set preferences" and "day \<in> DAYS"
    and "map_of (days data) day = None"
  shows "assign_students_to_activities day_order solve G preferences = (None, None)"
proof -
  have "day \<in> set day_order" using assms(1,3) by (simp add: iteration_order_def)
  from init_capacity_missing_day[OF assms(2) this assms(4)]
  obtain e where "init_capacity day_order preferences = Inl e"
    by blast
  then show ?thesis by (simp add: assign_students_to_activities_def allocate_def)
qed

theorem missing_day_fails_whole_run_witness:
  "assign_students_to_activities mon_to_thu (checked first_fit) empty_graph partial_preferences =
     (None, None)"
proof -
  have o: "iteration_order mon_to_thu"
    by (auto simp: iteration_order_def mon_to_thu_def DAYS_def)
  have a: "(''S2'', \<lparr>weight = ''high'', days = [(''mon'', prefs3 ''x'' ''y'' ''z'')]\<rparr>)
             \<in> set partial_preferences"
    by (simp add: partial_preferences_def)
  have b: "''tue'' \<in> DAYS" by (simp add: DAYS_def)
  have c: "map_of (days \<lparr>weight = ''high'', days = [(''mon'', prefs3 ''x'' ''y'' ''z'')]\<rparr>) ''tue'' = None"
    by simp
  show ?thesis by (rule missing_day_fails_whole_run[OF o a b c])
qed

subsection \<open>The edges of the network of a pass\<close>

lemma edges_add_node: "edges (add_node n G) = edges G"
  by (simp add: add_node_def)

lemma edges_add_edge: "edges (add_edge u v c w G) = AList.update (u, v) (c, w) (edges G)"
  by (simp add: add_edge_def)

lemma map_of_edges_add_edge:
  "map_of (edges (add_edge u v c w G)) k = (if k = (u, v) then Some (c, w) else map_of (edges G) k)"
  by (simp add: edges_add_edge update_conv')

text \<open>What one day of one student adds to the network.\<close>

lemma add_student_day_edges:
  assumes "add_student_day cap lvl sid dp G = Inr G'"
  shows "\<exists>c. ledger_get cap (fst dp) (pref_of lvl (snd dp)) = Inr c \<and>
           (\<forall>k. map_of (edges G') k =
              (if k = (fst dp @ ''_'' @ pref_of lvl (snd dp), ''sink'') then Some (c, 0)
               else if 0 < c \<and> k = (sid @ ''_'' @ fst dp, fst dp @ ''_'' @ pref_of lvl (snd dp))
                 then Some (1, 0)
               else if k = (''source'', sid @ ''_'' @ fst dp) then Some (1, 0)
               else map_of (edges G) k))"
proof -
  from assms obtain c where c: "ledger_get cap (fst dp) (pref_of lvl (snd dp)) = Inr c"
    by (auto simp: add_student_day_def Let_def split: sum.splits)
  have "G' = add_edge (fst dp @ ''_'' @ pref_of lvl (snd dp)) ''sink'' c 0
               (if c > 0 then add_edge (sid @ ''_'' @ fst dp) (fst dp @ ''_'' @ pref_of lvl (snd dp)) 1 0
                                (add_edge ''source'' (sid @ ''_'' @ fst dp) 1 0 G)
                else add_edge ''source'' (sid @ ''_'' @ fst dp) 1 0 G)"
    using assms c by (auto simp: add_student_day_def Let_def)
  then show ?thesis using c by (auto simp: map_of_edges_add_edge)
qed

lemma underscore_not_sink: "a @ ''_'' @ b \<noteq> ''sink''"
proof
  assume h: "a @ ''_'' @ b = ''sink''"
  have "CHR ''_'' \<in> set (a @ ''_'' @ b)" by simp
  then have "CHR ''_'' \<in> set ''sink''" by (simp only: h)
  then show False by simp
qed

lemma underscore_not_source: "a @ ''_'' @ b \<noteq> ''source''"
proof
  assume h: "a @ ''_'' @ b = ''source''"
  have "CHR ''_'' \<in> set (a @ ''_'' @ b)" by simp
  then have "CHR ''_'' \<in> set ''source''" by (simp only: h)
  then show False by simp
qed

lemma add_student_day_keeps_unit_edge:
  assumes "add_student_day cap lvl sid dp G = Inr G'"
    and "map_of (edges G) k = Some (1, 0)" and "snd k \<noteq> ''sink''"
  shows "map_of (edges G') k = Some (1, 0)"
  using add_student_day_edges[OF assms(1)] assms(2,3) by (cases k) auto

lemma add_student_day_source_edge:
  assumes "add_student_day cap lvl sid dp G = Inr G'"
  shows "map_of (edges G') (''source'', sid @ ''_'' @ fst dp) = Some (1, 0)"
  using add_student_day_edges[OF assms] underscore_not_sink by auto

lemma add_student_day_choice_edge:
  assumes "add_student_day cap lvl sid dp G = Inr G'"
    and "ledger_get cap (fst dp) (pref_of lvl (snd dp)) = Inr c" and "0 < c"
  shows "map_of (edges G') (sid @ ''_'' @ fst dp, fst dp @ ''_'' @ pref_of lvl (snd dp)) = Some (1, 0)"
  using add_student_day_edges[OF assms(1)] assms(2,3) underscore_not_sink by auto

lemma for_each_establish:
  assumes "for_each body xs s = Inr s'" and "x \<in> set xs"
    and "\<And>t t'. body x t = Inr t' \<Longrightarrow> Q t'"
    and "\<And>y t t'. Q t \<Longrightarrow> body y t = Inr t' \<Longrightarrow> Q t'"
  shows "Q s'"
  using assms(1,2)
proof (induction xs arbitrary: s)
  case Nil
  then show ?case by simp
next
  case (Cons y ys)
  from Cons.prems(1) obtain s1 where b: "body y s = Inr s1" and r: "for_each body ys s1 = Inr s'"
    by (auto split: sum.splits)
  show ?case
  proof (cases "x \<in> set ys")
    case True
    then show ?thesis using Cons.IH[OF r] by simp
  next
    case False
    then have "y = x" using Cons.prems(2) by simp
    then have "Q s1" using b assms(3) by simp
    with r show ?thesis by (rule for_each_inv) (rule assms(4))
  qed
qed

lemma add_student_keeps_unit_edge:
  assumes "add_student cap lvl sd G = Inr G'"
    and "map_of (edges G) k = Some (1, 0)" and "snd k \<noteq> ''sink''"
  shows "map_of (edges G') k = Some (1, 0)"
  using assms(1)[unfolded add_student_def] assms(2)
  by (rule for_each_inv) (rule add_student_day_keeps_unit_edge[OF _ _ assms(3)])

lemma network_has_unit_edge:
  assumes "create_priority_network students cap lvl = Inr G"
    and "(sid, data) \<in> set students" and "dp \<in> set (days data)"
    and "snd k \<noteq> ''sink''"
    and "\<And>H H'. add_student_day cap lvl sid dp H = Inr H' \<Longrightarrow> map_of (edges H') k = Some (1, 0)"
  shows "map_of (edges G) k = Some (1, 0)"
proof (rule for_each_establish[OF assms(1)[unfolded create_priority_network_def] assms(2)])
  fix t t' assume "add_student cap lvl (sid, data) t = Inr t'"
  then have "for_each (add_student_day cap lvl sid) (days data) t = Inr t'"
    by (simp add: add_student_def)
  then show "map_of (edges t') k = Some (1, 0)"
    by (rule for_each_establish[OF _ assms(3)])
       (erule assms(5), erule (1) add_student_day_keeps_unit_edge[OF _ _ assms(4)])
next
  fix y t t' assume "map_of (edges t) k = Some (1, 0)" "add_student cap lvl y t = Inr t'"
  then show "map_of (edges t') k = Some (1, 0)"
    using add_student_keeps_unit_edge assms(4) by blast
qed

lemma network_ledger_entry:
  assumes "create_priority_network students cap lvl = Inr G"
    and "(sid, data) \<in> set students" and "dp \<in> set (days data)"
  shows "\<exists>c. ledger_get cap (fst dp) (pref_of lvl (snd dp)) = Inr c"
proof -
  have "True \<and> (\<exists>c. ledger_get cap (fst dp) (pref_of lvl (snd dp)) = Inr c)"
  proof (rule for_each_establish[OF assms(1)[unfolded create_priority_network_def] assms(2),
        where Q="\<lambda>_. True \<and> (\<exists>c. ledger_get cap (fst dp) (pref_of lvl (snd dp)) = Inr c)"])
    fix t t' assume "add_student cap lvl (sid, data) t = Inr t'"
    then have "for_each (add_student_day cap lvl sid) (days data) t = Inr t'"
      by (simp add: add_student_def)
    then show "True \<and> (\<exists>c. ledger_get cap (fst dp) (pref_of lvl (snd dp)) = Inr c)"
      by (rule for_each_establish[OF _ assms(3)]) (use add_student_day_edges in blast)+
  qed simp
  then show ?thesis by simp
qed

lemma commit_flow_assigned:
  assumes "lookup2 ga sid day \<noteq> None"
  shows "snd (commit_flow sid day tf (ga, cap)) = (ga, cap)"
  using assms unfolding commit_flow_eq
  by (auto split: list.splits)

lemma first_pass_of_one_student:
  "run_pass (checked first_fit) one_student L1st ([], full_ledger) =
     Inr ([(''S1'', all_days ''x'')], ledger_after_S1)"
  by code_simp

text \<open>
  Claim C1, as stated, fails.  After the first-level pass has assigned student S1 on
  Monday, the network built for the second level still holds the source edge of the
  (S1, mon) node and its outgoing edge to the second choice.
\<close>

theorem committed_pair_in_next_network_counterexample:
  "run_pass (checked first_fit) one_student L1st ([], full_ledger) =
     Inr ([(''S1'', all_days ''x'')], ledger_after_S1) \<and>
   lookup2 [(''S1'', all_days ''x'')] ''S1'' ''mon'' = Some ''x'' \<and>
   edge_of (create_priority_network one_student ledger_after_S1 L2nd) (''source'', ''S1_mon'') =
     Some (1, 0) \<and>
   edge_of (create_priority_network one_student ledger_after_S1 L2nd) (''S1_mon'', ''mon_y'') =
     Some (1, 0)"
proof -
  have "lookup2 [(''S1'', all_days ''x'')] ''S1'' ''mon'' = Some ''x''" by code_simp
  moreover have "edge_of (create_priority_network one_student ledger_after_S1 L2nd)
                   (''source'', ''S1_mon'') = Some (1, 0)" by code_simp
  moreover have "edge_of (create_priority_network one_student ledger_after_S1 L2nd)
                   (''S1_mon'', ''mon_y'') = Some (1, 0)" by code_simp
  ultimately show ?thesis using first_pass_of_one_student by simp
qed

text \<open>
  Claim C1, amended.  The network of a pass is built from the tier's students and the
  ledger alone; the assignment mapping is not an argument of the builder.  Every
  (student, day) record of the tier contributes its source edge, and its outgoing edge
  to the level's activity whenever that activity has a seat left, whether or not the pair
  has already been assigned.  What keeps an assigned pair as it is is the commit step:
  on a pair that has an activity it changes neither the assignments nor the ledger.
\<close>

theorem network_includes_every_student_day:
  assumes "create_priority_network students cap lvl = Inr G"
    and "(sid, data) \<in> set students" and "(day, p) \<in> set (days data)"
  shows "map_of (edges G) (''source'', sid @ ''_'' @ day) = Some (1, 0) \<and>
         (\<exists>c. ledger_get cap day (pref_of lvl p) = Inr c \<and>
              (0 < c \<longrightarrow>
                 map_of (edges G) (sid @ ''_'' @ day, day @ ''_'' @ pref_of lvl p) = Some (1, 0))) \<and>
         (lookup2 ga sid day \<noteq> None \<longrightarrow> snd (commit_flow sid day tf (ga, cap')) = (ga, cap'))"
proof -
  have src: "map_of (edges G) (''source'', sid @ ''_'' @ day) = Some (1, 0)"
    by (rule network_has_unit_edge[OF assms])
       (use underscore_not_sink add_student_day_source_edge in auto)
  from network_ledger_entry[OF assms] obtain c where c: "ledger_get cap day (pref_of lvl p) = Inr c"
    by auto
  have "map_of (edges G) (sid @ ''_'' @ day, day @ ''_'' @ pref_of lvl p) = Some (1, 0)" if "0 < c"
    by (rule network_has_unit_edge[OF assms])
       (use underscore_not_sink add_student_day_choice_edge c that in auto)
  with src c commit_flow_assigned show ?thesis by blast
qed

theorem network_includes_every_student_day_witness:
  "edge_of (create_priority_network one_student ledger_after_S1 L2nd) (''source'', ''S1_mon'') =
     Some (1, 0) \<and>
   ledger_get ledger_after_S1 ''mon'' ''y'' = Inr 15 \<and>
   edge_of (create_priority_network one_student ledger_after_S1 L2nd) (''S1_mon'', ''mon_y'') =
     Some (1, 0) \<and>
   snd (commit_flow ''S1'' ''mon'' (''mon_y'', 1) ([(''S1'', all_days ''x'')], ledger_after_S1)) =
     ([(''S1'', all_days ''x'')], ledger_after_S1)"
proof -
  have n: "\<not> isl (create_priority_network one_student ledger_after_S1 L2nd)"
    by code_simp
  then have G: "create_priority_network one_student ledger_after_S1 L2nd =
                  Inr (projr (create_priority_network one_student ledger_after_S1 L2nd))"
    by simp
  have s: "(''S1'', snd (student ''S1'' ''high'' ''x'' ''y'' ''z'')) \<in> set one_student"
    by (simp add: one_student_def student_def)
  have d: "(''mon'', prefs3 ''x'' ''y'' ''z'') \<in>
             set (days (snd (student ''S1'' ''high'' ''x'' ''y'' ''z'')))"
    by (simp add: student_def mon_to_thu_def)
  have c: "ledger_get ledger_after_S1 ''mon'' ''y'' = Inr 15" by code_simp
  have a: "lookup2 [(''S1'', all_days ''x'')] ''S1'' ''mon'' \<noteq> None" by code_simp
  from network_includes_every_student_day[OF G s d, where ga = "[(''S1'', all_days ''x'')]"
      and tf = "(''mon_y'', 1)" and cap' = ledger_after_S1] c a n
  show ?thesis by (simp add: edge_of_def sum.case_eq_if prefs3_def)
qed

subsection \<open>Tiers and levels run in order\<close>



text \<open>
  With one seat a day the high-priority student takes it although the low-priority
  student comes first in the input; the low-priority student gets the second choice.
\<close>

lemma higher_tier_takes_the_last_seat:
  "tiers_in_order (checked first_fit) contended one_seat =
     Inr ([(''S2'', all_days ''x''), (''S1'', all_days ''y'')],
          map (\<lambda>d. (d, [(''x'', 0), (''y'', 14), (''z'', 15)])) mon_to_thu)"
  by code_simp



subsection \<open>Splitting node names\<close>

lemma split_all_not_Nil: "split_all s \<noteq> []"
  by (induction s) (auto split: list.splits)

lemma split_all_append: "split_all (a @ CHR ''_'' # b) = split_all a @ split_all b"
proof (induction a)
  case Nil
  then show ?case by simp
next
  case (Cons c a)
  obtain p ps where p: "split_all a = p # ps"
    using split_all_not_Nil[of a] by (cases "split_all a") auto
  show ?case using Cons p by simp
qed

lemma split_all_single:
  assumes "split_all s = [x]"
  shows "s = x \<and> CHR ''_'' \<notin> set s"
  using assms
proof (induction s arbitrary: x)
  case Nil
  then show ?case by simp
next
  case (Cons c s)
  obtain p ps where p: "split_all s = p # ps"
    using split_all_not_Nil[of s] by (cases "split_all s") auto
  from Cons.prems p have c: "c \<noteq> CHR ''_''" and x: "x = c # p" and ps: "ps = []"
    by (auto split: if_splits)
  have "split_all s = [p]" using p ps by simp
  then have "s = p \<and> CHR ''_'' \<notin> set s" by (rule Cons.IH)
  then show ?case using c x by auto
qed

lemma split_all_node:
  assumes "split_all (a @ ''_'' @ b) = [x, y]"
  shows "a = x \<and> b = y \<and> CHR ''_'' \<notin> set b"
proof -
  have e: "split_all a @ split_all b = [x, y]"
    using assms by (simp add: split_all_append)
  obtain p ps where p: "split_all a = p # ps"
    using split_all_not_Nil[of a] by (cases "split_all a") auto
  obtain q qs where q: "split_all b = q # qs"
    using split_all_not_Nil[of b] by (cases "split_all b") auto
  from e p q have "split_all a = [x]" "split_all b = [y]"
    by (cases ps; simp)+
  then show ?thesis using split_all_single by blast
qed

lemma split_first_node:
  assumes "CHR ''_'' \<notin> set d"
  shows "split_first (d @ ''_'' @ a) = [d, a]"
  using assms by (induction d) auto

subsection \<open>Every edge of a pass's network\<close>

lemma keys_add_edge: "fst ` set (edges (add_edge u v c w G)) = insert (u, v) (fst ` set (edges G))"
  by (simp add: edges_add_edge dom_update)

lemma add_student_day_edge_keys:
  assumes "add_student_day cap lvl sid dp G = Inr G'"
  shows "fst ` set (edges G') \<subseteq>
           {(''source'', sid @ ''_'' @ fst dp),
            (sid @ ''_'' @ fst dp, fst dp @ ''_'' @ pref_of lvl (snd dp)),
            (fst dp @ ''_'' @ pref_of lvl (snd dp), ''sink'')} \<union> fst ` set (edges G)"
proof -
  from assms obtain c where c: "ledger_get cap (fst dp) (pref_of lvl (snd dp)) = Inr c"
    by (auto simp: add_student_day_def Let_def split: sum.splits)
  have "G' = add_edge (fst dp @ ''_'' @ pref_of lvl (snd dp)) ''sink'' c 0
               (if c > 0 then add_edge (sid @ ''_'' @ fst dp) (fst dp @ ''_'' @ pref_of lvl (snd dp)) 1 0
                                (add_edge ''source'' (sid @ ''_'' @ fst dp) 1 0 G)
                else add_edge ''source'' (sid @ ''_'' @ fst dp) 1 0 G)"
    using assms c by (auto simp: add_student_day_def Let_def)
  then have "fst ` set (edges G') =
      (if c > 0 then
         insert (fst dp @ ''_'' @ pref_of lvl (snd dp), ''sink'')
           (insert (sid @ ''_'' @ fst dp, fst dp @ ''_'' @ pref_of lvl (snd dp))
              (insert (''source'', sid @ ''_'' @ fst dp) (fst ` set (edges G))))
       else insert (fst dp @ ''_'' @ pref_of lvl (snd dp), ''sink'')
              (insert (''source'', sid @ ''_'' @ fst dp) (fst ` set (edges G))))"
    by (simp only: keys_add_edge if_distrib[of "\<lambda>H. fst ` set (edges H)"]
        if_distrib[of "\<lambda>K. insert _ K"])
  then show ?thesis by (simp only: split: if_splits) blast+
qed

lemma add_student_day_pass_edges:
  assumes "add_student_day cap lvl (fst sd) dp G = Inr G'" and "pass_edges students lvl G"
    and "sd \<in> set students" and "dp \<in> set (days (snd sd))"
  shows "pass_edges students lvl G'"
proof -
  have "choice_edge students lvl
          (fst sd @ ''_'' @ fst dp, fst dp @ ''_'' @ pref_of lvl (snd dp))"
    unfolding choice_edge_def using assms(3,4) by blast
  then show ?thesis
    using add_student_day_edge_keys[OF assms(1)] assms(2)
    unfolding pass_edges_def by fastforce
qed

lemma add_student_pass_edges:
  assumes "add_student cap lvl sd G = Inr G'" and "pass_edges students lvl G"
    and "sd \<in> set students"
  shows "pass_edges students lvl G'"
  using assms(1)[unfolded add_student_def] assms(2)
  by (rule for_each_inv) (rule add_student_day_pass_edges[OF _ _ assms(3)])

lemma network_pass_edges:
  assumes "create_priority_network students cap lvl = Inr G"
  shows "pass_edges students lvl G"
proof -
  have "pass_edges students lvl (add_node ''sink'' (add_node ''source'' empty_graph))"
    by (simp add: pass_edges_def edges_add_node empty_graph_def)
  with assms[unfolded create_priority_network_def] show ?thesis
    by (rule for_each_inv) (rule add_student_pass_edges)
qed


subsection \<open>What a pass can commit\<close>

lemma set_update_subset: "set (AList.update k v al) \<subseteq> insert (k, v) (set al)"
  by (induction al) auto

lemma set_dict_update_subset: "set (dict_update a b) \<subseteq> set a \<union> set b"
  unfolding dict_update_def case_prod_beta
proof (induction b arbitrary: a)
  case Nil
  then show ?case by simp
next
  case (Cons kv b)
  have "set (fold (\<lambda>p. AList.update (fst p) (snd p)) b (AList.update (fst kv) (snd kv) a))
          \<subseteq> set (AList.update (fst kv) (snd kv) a) \<union> set b"
    by (rule Cons.IH)
  moreover have "set (AList.update (fst kv) (snd kv) a) \<subseteq> insert kv (set a)"
    using set_update_subset[of "fst kv" "snd kv" a] by simp
  ultimately show ?case by auto
qed

lemma set_nested_get:
  assumes "da \<in> set (nested_get d k)"
  shows "\<exists>m. (k, m) \<in> set d \<and> da \<in> set m"
proof (cases "map_of d k")
  case None
  then show ?thesis using assms by (simp add: nested_get_def)
next
  case (Some m)
  then have "(k, m) \<in> set d" by (rule map_of_SomeD)
  then show ?thesis using assms Some by (auto simp: nested_get_def)
qed

lemma only_ranked_nested_put:
  assumes "only_ranked preferences ga" and "ranked preferences sid day act"
  shows "only_ranked preferences (nested_put sid day act ga)"
proof -
  have inner: "ranked preferences sid (fst da) (snd da)"
    if "da \<in> set (AList.update day act (nested_get ga sid))" for da
  proof -
    from that set_update_subset have "da = (day, act) \<or> da \<in> set (nested_get ga sid)" by fastforce
    then show ?thesis
    proof
      assume "da = (day, act)"
      then show ?thesis using assms(2) by simp
    next
      assume "da \<in> set (nested_get ga sid)"
      from set_nested_get[OF this] obtain sm where "sm \<in> set ga" "fst sm = sid" "da \<in> set (snd sm)"
        by fastforce
      then show ?thesis using assms(1) unfolding only_ranked_def by blast
    qed
  qed
  show ?thesis unfolding only_ranked_def
  proof (intro ballI)
    fix sm da assume sm: "sm \<in> set (nested_put sid day act ga)" and da: "da \<in> set (snd sm)"
    from sm set_update_subset
    have "sm = (sid, AList.update day act (nested_get ga sid)) \<or> sm \<in> set ga"
      unfolding nested_put_def by fastforce
    then show "ranked preferences (fst sm) (fst da) (snd da)"
      using inner da assms(1) unfolding only_ranked_def by auto
  qed
qed

lemma commit_flow_put:
  assumes "commit_flow sid day tf (ga, cap) = (e, (ga', cap'))"
  shows "ga' = ga \<or>
         (\<exists>d act. 0 < snd tf \<and> fst tf \<noteq> ''sink'' \<and> split_first (fst tf) = [d, act] \<and>
                  ga' = nested_put sid day act ga)"
  using assms unfolding commit_flow_eq
  by (auto split: if_splits list.splits sum.splits)

lemma pref_of_in_values: "pref_of lvl p \<in> set (pref_values p)"
  by (cases lvl) (simp_all add: pref_values_def)

text \<open>
  The flows of a student-day node that the commit loop accepts run along choice edges
  of that student and day, so what is committed is the level's choice.
\<close>

lemma commit_flow_ranked:
  assumes "commit_flow sid day tf st = (e, st')"
    and "only_ranked preferences (fst st)"
    and "pass_edges students lvl G" and "set students \<subseteq> set preferences"
    and "(n, fst tf) \<in> fst ` set (edges G)"
    and "split_all n = [sid, day]" and "n \<noteq> ''source''"
  shows "only_ranked preferences (fst st')"
proof -
  obtain ga cap where st: "st = (ga, cap)" by (cases st)
  obtain ga' cap' where st': "st' = (ga', cap')" by (cases st')
  from commit_flow_put[OF assms(1)[unfolded st st']]
  show ?thesis
  proof (elim disjE exE conjE)
    assume "ga' = ga"
    then show ?thesis using assms(2) st st' by simp
  next
    fix d act
    assume f: "0 < snd tf" and t: "fst tf \<noteq> ''sink''" and sp: "split_first (fst tf) = [d, act]"
      and ga': "ga' = nested_put sid day act ga"
    from assms(3,5,7) t have "choice_edge students lvl (n, fst tf)"
      unfolding pass_edges_def by fastforce
    then obtain sd dp where sd: "sd \<in> set students" and dp: "dp \<in> set (days (snd sd))"
      and n: "n = fst sd @ ''_'' @ fst dp"
      and tg: "fst tf = fst dp @ ''_'' @ pref_of lvl (snd dp)"
      unfolding choice_edge_def by blast
    from split_all_node[OF assms(6)[unfolded n]]
    have e: "fst sd = sid" "fst dp = day" "CHR ''_'' \<notin> set (fst dp)" by blast+
    have "split_first (fst tf) = [fst dp, pref_of lvl (snd dp)]"
      unfolding tg by (rule split_first_node[OF e(3)])
    with sp have act: "act = pref_of lvl (snd dp)" by simp
    have "ranked preferences sid day act"
      unfolding ranked_def act using sd dp e(1,2) assms(4) pref_of_in_values by blast
    then show ?thesis using only_ranked_nested_put assms(2) st st' ga' by simp
  qed
qed

lemma in_edge_flows:
  assumes "nf \<in> set fd" and "tf \<in> set (snd nf)"
  shows "((fst nf, fst tf), snd tf) \<in> set (edge_flows fd)"
  using assms unfolding edge_flows_def by auto

lemma flow_on_edges_key:
  assumes "flow_on_edges G fd" and "nf \<in> set fd" and "tf \<in> set (snd nf)"
  shows "(fst nf, fst tf) \<in> fst ` set (edges G)"
proof -
  have "has_key (fst nf, fst tf) (edges G)"
    using assms(1) in_edge_flows[OF assms(2,3)]
    unfolding flow_on_edges_def list_all_iff by fastforce
  then show ?thesis by (simp add: has_key_def map_of_eq_None_iff)
qed

lemma process_node_ranked:
  assumes "process_node nf st = (e, st')" and "only_ranked preferences (fst st)"
    and "pass_edges students lvl G" and "set students \<subseteq> set preferences"
    and "flow_on_edges G fd" and "nf \<in> set fd"
  shows "only_ranked preferences (fst st')"
  using assms(1)
proof (cases rule: process_node_cases)
  case skip
  then show ?thesis using assms(2) by simp
next
  case (student sid day)
  show ?thesis
  proof (rule for_each_mut_inv[where P="\<lambda>t. only_ranked preferences (fst t)", OF student(4) assms(2)])
    fix tf t e' t'
    assume tf: "tf \<in> set (snd nf)" and t: "only_ranked preferences (fst t)"
      and c: "commit_flow sid day tf t = (e', t')"
    show "only_ranked preferences (fst t')"
      by (rule commit_flow_ranked[OF c t assms(3,4) flow_on_edges_key[OF assms(5,6) tf]
            student(1,3)])
  qed
qed

lemma run_pass_ranked:
  assumes "run_pass solve students lvl st = Inr st'" and "only_ranked preferences (fst st)"
    and "reports_edges solve" and "set students \<subseteq> set preferences"
  shows "only_ranked preferences (fst st')"
  using assms(1)
proof (cases rule: run_pass_cases)
  case (failed G)
  then show ?thesis using assms(2) by simp
next
  case (solved G fd e)
  have pe: "pass_edges students lvl G" by (rule network_pass_edges[OF solved(1)])
  have fe: "flow_on_edges G fd" using assms(3) solved(2) unfolding reports_edges_def by blast
  show ?thesis
    by (rule for_each_mut_inv[where P="\<lambda>t. only_ranked preferences (fst t)", OF solved(3) assms(2)])
       (rule process_node_ranked[OF _ _ pe assms(4) fe])
qed

lemma only_ranked_Nil: "only_ranked preferences []"
  by (simp add: only_ranked_def)

lemma assign_priority_group_ranked:
  assumes "assign_priority_group solve students label cap = Inr st'"
    and "reports_edges solve" and "set students \<subseteq> set preferences"
  shows "only_ranked preferences (fst st')"
proof -
  have "only_ranked preferences (fst (([] :: assignments), cap))" by (simp add: only_ranked_Nil)
  with assms(1)[unfolded assign_priority_group_def] show ?thesis
    by (rule for_each_inv[where P="\<lambda>t. only_ranked preferences (fst t)"])
       (rule run_pass_ranked[OF _ _ assms(2,3)])
qed

lemma process_group_ranked:
  assumes "process_group solve preferences label st = Inr st'"
    and "only_ranked preferences (fst st)" and "reports_edges solve"
  shows "only_ranked preferences (fst st')"
  using assms(1)
proof (cases rule: process_group_cases)
  case (1 new_assignments)
  have "set (priority_group label preferences) \<subseteq> set preferences"
    by (auto simp: priority_group_def)
  from assign_priority_group_ranked[OF 1(1) assms(3) this]
  have "only_ranked preferences new_assignments" by simp
  then show ?thesis using assms(2) set_dict_update_subset[of "fst st" new_assignments]
    unfolding 1(2) only_ranked_def by blast
qed

lemma allocate_ranked:
  assumes "allocate day_order solve preferences = Inr st'" and "reports_edges solve"
  shows "only_ranked preferences (fst st')"
  using assms(1)
proof (cases rule: allocate_cases)
  case (1 cap)
  have "only_ranked preferences (fst (([] :: assignments), cap))" by (simp add: only_ranked_Nil)
  with 1(2) show ?thesis
    by (rule for_each_inv[where P="\<lambda>t. only_ranked preferences (fst t)"])
       (rule process_group_ranked[OF _ _ assms(2)])
qed


subsection \<open>Classifying the allocator's own output\<close>

lemma ranked_prefs_get:
  assumes "well_formed preferences" and "ranked preferences sid day act"
  shows "\<exists>p. prefs_get preferences sid day = Inr p \<and> act \<in> set (pref_values p)"
proof -
  from assms(2) obtain sd dp where sd: "sd \<in> set preferences" "fst sd = sid"
    and dp: "dp \<in> set (days (snd sd))" "fst dp = day" and act: "act \<in> set (pref_values (snd dp))"
    unfolding ranked_def by blast
  have d1: "distinct (map fst preferences)" and d2: "distinct (map fst (days (snd sd)))"
    using assms(1) sd(1) unfolding well_formed_def by blast+
  have "(sid, snd sd) \<in> set preferences" using sd by (metis prod.collapse)
  then have m1: "map_of preferences sid = Some (snd sd)" using d1 by simp
  have "(day, snd dp) \<in> set (days (snd sd))" using dp by (metis prod.collapse)
  then have m2: "map_of (days (snd sd)) day = Some (snd dp)" using d2 by simp
  show ?thesis using m1 m2 act by (simp add: prefs_get_def)
qed

lemma classify_ranked:
  assumes "act \<in> set (pref_values p)"
  shows "sat_other (classify p act s) = sat_other s"
  using assms by (auto simp: classify_def pref_values_def)

lemma count_days_ranked:
  assumes "well_formed preferences"
    and "\<forall>da \<in> set m. ranked preferences sid (fst da) (snd da)"
  shows "\<exists>s'. for_each (count_day preferences sid) m s = Inr s' \<and> sat_other s' = sat_other s"
  using assms(2)
proof (induction m arbitrary: s)
  case Nil
  then show ?case by simp
next
  case (Cons da m)
  from Cons.prems have "ranked preferences sid (fst da) (snd da)" by simp
  from ranked_prefs_get[OF assms(1) this] obtain p where
    p: "prefs_get preferences sid (fst da) = Inr p" "snd da \<in> set (pref_values p)" by blast
  have c: "count_day preferences sid da s = Inr (classify p (snd da) s)"
    by (simp add: count_day_def p(1))
  from Cons.IH[of "classify p (snd da) s"] Cons.prems obtain s' where
    "for_each (count_day preferences sid) m (classify p (snd da) s) = Inr s'"
    "sat_other s' = sat_other (classify p (snd da) s)" by auto
  then show ?case using c classify_ranked[OF p(2)] by simp
qed

lemma count_students_ranked:
  assumes "well_formed preferences" and "only_ranked preferences asg"
  shows "\<exists>s'. for_each (count_student preferences) asg s = Inr s' \<and> sat_other s' = sat_other s"
  using assms(2)
proof (induction asg arbitrary: s)
  case Nil
  then show ?case by simp
next
  case (Cons sm asg)
  from Cons.prems have "\<forall>da \<in> set (snd sm). ranked preferences (fst sm) (fst da) (snd da)"
    by (simp add: only_ranked_def)
  from count_days_ranked[OF assms(1) this, of s] obtain s1 where
    s1: "count_student preferences sm s = Inr s1" "sat_other s1 = sat_other s"
    by (auto simp: count_student_def)
  from Cons.prems have "only_ranked preferences asg" by (simp add: only_ranked_def)
  from Cons.IH[OF this, of s1] obtain s' where
    "for_each (count_student preferences) asg s1 = Inr s'" "sat_other s' = sat_other s1" by blast
  then show ?case using s1 by simp
qed

lemma valid_flow_on_edges:
  assumes "valid_flow G fd"
  shows "flow_on_edges G fd"
proof -
  have "within_capacity G e \<Longrightarrow> has_key (fst e) (edges G)" for e
    by (auto simp: within_capacity_def has_key_def split: option.splits)
  then show ?thesis using assms unfolding valid_flow_def flow_on_edges_def list_all_iff by blast
qed

lemma returns_flows_reports_edges: "returns_flows solve \<Longrightarrow> reports_edges solve"
  unfolding returns_flows_def reports_edges_def using valid_flow_on_edges by blast

lemma checked_returns_flows: "returns_flows (checked f)"
  unfolding returns_flows_def checked_def by (auto split: if_splits)

lemma well_formed_sample: "well_formed sample_preferences"
  by (simp add: well_formed_def sample_preferences_def student_def mon_to_thu_def)

text \<open>
  Claim C5.  With a solver that reports flows on the edges of the network it was given,
  every entry of the allocator's assignment mapping is one of the three choices that the
  student ranks for that day; classifying the mapping raises nothing and counts no entry
  as \<open>other\<close>, and these counts are the ones that \<open>assign_students_to_activities\<close> returns.
\<close>

theorem allocator_output_is_never_other:
  assumes "well_formed preferences" and "reports_edges solve"
    and "allocate day_order solve preferences = Inr (asg, cap)"
  shows "only_ranked preferences asg \<and>
         (\<exists>sat. preference_satisfaction preferences asg = Inr sat \<and> sat_other sat = 0 \<and>
                (asg \<noteq> [] \<longrightarrow>
                   assign_students_to_activities day_order solve G preferences =
                     (Some asg, Some sat)))"
proof -
  have r: "only_ranked preferences asg"
    using allocate_ranked[OF assms(3,2)] by simp
  from count_students_ranked[OF assms(1) r] obtain sat where
    sat: "preference_satisfaction preferences asg = Inr sat" "sat_other sat = 0"
    unfolding preference_satisfaction_def by fastforce
  have "assign_students_to_activities day_order solve G preferences = (Some asg, Some sat)"
    if "asg \<noteq> []"
    using that by (simp add: assign_students_to_activities_def assms(3) sat(1))
  then show ?thesis using r sat by blast
qed

theorem allocator_output_is_never_other_witness:
  "well_formed sample_preferences \<and> reports_edges (checked first_fit) \<and>
   only_ranked sample_preferences sample_assignments \<and>
   (\<exists>sat. preference_satisfaction sample_preferences sample_assignments = Inr sat \<and>
          sat_other sat = 0 \<and>
          assign_students_to_activities mon_to_thu (checked first_fit) empty_graph
            sample_preferences = (Some sample_assignments, Some sat))"
proof -
  have re: "reports_edges (checked first_fit)"
    by (rule returns_flows_reports_edges[OF checked_returns_flows])
  from allocator_output_is_never_other[OF well_formed_sample re sample_allocate, of empty_graph]
  show ?thesis using well_formed_sample re sample_nonempty by blast
qed

subsection \<open>A pass keeps what is assigned\<close>

lemma commit_flow_keeps:
  assumes "commit_flow sid' day' tf st = (e, st')" and "lookup2 (fst st) sid day = Some act"
  shows "lookup2 (fst st') sid day = Some act"
proof -
  obtain ga cap where st: "st = (ga, cap)" by (cases st)
  have "fst st' = ga \<or> (lookup2 ga sid' day' = None \<and> (\<exists>a. fst st' = nested_put sid' day' a ga))"
    using assms(1) unfolding st commit_flow_eq
    by (auto split: if_splits list.splits sum.splits)
  then show ?thesis using assms(2) unfolding st
    by (auto simp: lookup2_nested_put)
qed

lemma process_node_keeps:
  assumes "process_node nf st = (e, st')" and "lookup2 (fst st) sid day = Some act"
  shows "lookup2 (fst st') sid day = Some act"
  using assms(1)
proof (cases rule: process_node_cases)
  case skip
  then show ?thesis using assms(2) by simp
next
  case (student sid' day')
  show ?thesis
    by (rule for_each_mut_inv[where P="\<lambda>t. lookup2 (fst t) sid day = Some act",
          OF student(4) assms(2)])
       (rule commit_flow_keeps)
qed

lemma run_pass_keeps:
  assumes "run_pass solve students lvl st = Inr st'" and "lookup2 (fst st) sid day = Some act"
  shows "lookup2 (fst st') sid day = Some act"
  using assms(1)
proof (cases rule: run_pass_cases)
  case (failed G)
  then show ?thesis using assms(2) by simp
next
  case (solved G fd e)
  show ?thesis
    by (rule for_each_mut_inv[where P="\<lambda>t. lookup2 (fst t) sid day = Some act",
          OF solved(3) assms(2)])
       (rule process_node_keeps)
qed

lemma for_each_append:
  "for_each body (xs @ ys) s =
     (case for_each body xs s of Inl e \<Rightarrow> Inl e | Inr s' \<Rightarrow> for_each body ys s')"
  by (induction xs arbitrary: s) (auto split: sum.splits)

lemma for_each_take:
  assumes "for_each body xs s = Inr s'" and "for_each body (take k xs) s = Inr t"
  shows "for_each body (drop k xs) t = Inr s'"
proof -
  have "for_each body (take k xs @ drop k xs) s = Inr s'" using assms(1) by simp
  then show ?thesis unfolding for_each_append using assms(2) by simp
qed

lemma passes_keep:
  assumes "assign_priority_group solve students label cap = Inr (ga, cap')"
    and "after_passes solve students cap k = Inr (ga_k, cap_k)"
    and "lookup2 ga_k sid day = Some act"
  shows "lookup2 ga sid day = Some act"
proof -
  have "for_each (run_pass solve students) (drop k [L1st, L2nd, L3rd]) (ga_k, cap_k) =
          Inr (ga, cap')"
    by (rule for_each_take[OF assms(1)[unfolded assign_priority_group_def]
          assms(2)[unfolded after_passes_def]])
  then have "lookup2 (fst (ga, cap')) sid day = Some act"
    by (rule for_each_inv[where P="\<lambda>t. lookup2 (fst t) sid day = Some act"])
       (simp add: assms(3), rule run_pass_keeps)
  then show ?thesis by simp
qed


subsection \<open>The assignments of a tier are a dictionary over the tier's students\<close>

lemma distinct_nested_get:
  assumes "dict_like d"
  shows "distinct (map fst (nested_get d k))"
proof (cases "map_of d k")
  case None
  then show ?thesis by (simp add: nested_get_def)
next
  case (Some m)
  then have "(k, m) \<in> set d" by (rule map_of_SomeD)
  then show ?thesis using assms Some unfolding dict_like_def nested_get_def by fastforce
qed

lemma dict_like_nested_put:
  assumes "dict_like d"
  shows "dict_like (nested_put k1 k2 v d)"
proof -
  have outer: "distinct (map fst (nested_put k1 k2 v d))"
    unfolding nested_put_def using assms by (simp add: dict_like_def distinct_update)
  have inner: "distinct (map fst (snd km))" if "km \<in> set (nested_put k1 k2 v d)" for km
  proof -
    from that set_update_subset
    have "km = (k1, AList.update k2 v (nested_get d k1)) \<or> km \<in> set d"
      unfolding nested_put_def by fastforce
    then show ?thesis
      using distinct_nested_get[OF assms, of k1] assms
      by (auto simp: distinct_update dict_like_def)
  qed
  show ?thesis unfolding dict_like_def using outer inner by blast
qed

lemma commit_flow_group_dict:
  assumes "commit_flow sid day tf st = (e, st')"
    and "group_dict students (fst st)"
    and "pass_edges students lvl G"
    and "(n, fst tf) \<in> fst ` set (edges G)"
    and "split_all n = [sid, day]" and "n \<noteq> ''source''"
  shows "group_dict students (fst st')"
proof -
  obtain ga cap where st: "st = (ga, cap)" by (cases st)
  obtain ga' cap' where st': "st' = (ga', cap')" by (cases st')
  from commit_flow_put[OF assms(1)[unfolded st st']]
  show ?thesis
  proof (elim disjE exE conjE)
    assume "ga' = ga"
    then show ?thesis using assms(2) st st' by simp
  next
    fix d act
    assume t: "fst tf \<noteq> ''sink''" and ga': "ga' = nested_put sid day act ga"
    from assms(3,4,6) t have "choice_edge students lvl (n, fst tf)"
      unfolding pass_edges_def by fastforce
    then obtain sd dp where sd: "sd \<in> set students" and n: "n = fst sd @ ''_'' @ fst dp"
      unfolding choice_edge_def by auto
    from split_all_node[OF assms(5)[unfolded n]] have "fst sd = sid" by blast
    then have "sid \<in> fst ` set students" using sd by blast
    then show ?thesis
      using assms(2) dict_like_nested_put[of ga sid day act]
      unfolding st st' ga' group_dict_def by (simp add: keys_nested_put)
  qed
qed

lemma process_node_group_dict:
  assumes "process_node nf st = (e, st')" and "group_dict students (fst st)"
    and "pass_edges students lvl G" and "flow_on_edges G fd" and "nf \<in> set fd"
  shows "group_dict students (fst st')"
  using assms(1)
proof (cases rule: process_node_cases)
  case skip
  then show ?thesis using assms(2) by simp
next
  case (student sid day)
  show ?thesis
  proof (rule for_each_mut_inv[where P="\<lambda>t. group_dict students (fst t)", OF student(4) assms(2)])
    fix tf t e' t'
    assume tf: "tf \<in> set (snd nf)" and t: "group_dict students (fst t)"
      and c: "commit_flow sid day tf t = (e', t')"
    show "group_dict students (fst t')"
      by (rule commit_flow_group_dict[OF c t assms(3) flow_on_edges_key[OF assms(4,5) tf]
            student(1,3)])
  qed
qed

lemma run_pass_group_dict:
  assumes "run_pass solve students lvl st = Inr st'" and "group_dict students (fst st)"
    and "reports_edges solve"
  shows "group_dict students (fst st')"
  using assms(1)
proof (cases rule: run_pass_cases)
  case (failed G)
  then show ?thesis using assms(2) by simp
next
  case (solved G fd e)
  have pe: "pass_edges students lvl G" by (rule network_pass_edges[OF solved(1)])
  have fe: "flow_on_edges G fd" using assms(3) solved(2) unfolding reports_edges_def by blast
  show ?thesis
    by (rule for_each_mut_inv[where P="\<lambda>t. group_dict students (fst t)", OF solved(3) assms(2)])
       (rule process_node_group_dict[OF _ _ pe fe])
qed

lemma assign_priority_group_group_dict:
  assumes "assign_priority_group solve students label cap = Inr (ga, cap')"
    and "reports_edges solve"
  shows "group_dict students ga"
proof -
  have "group_dict students (fst (([] :: assignments), cap))"
    by (simp add: group_dict_def dict_like_def)
  with assms(1)[unfolded assign_priority_group_def]
  have "group_dict students (fst (ga, cap'))"
    by (rule for_each_inv[where P="\<lambda>t. group_dict students (fst t)"])
       (rule run_pass_group_dict[OF _ _ assms(2)])
  then show ?thesis by simp
qed

subsection \<open>Merging the assignments of a tier\<close>

lemma map_of_dict_update:
  assumes "distinct (map fst b)"
  shows "map_of (dict_update a b) k = (case map_of b k of None \<Rightarrow> map_of a k | Some v \<Rightarrow> Some v)"
  using assms unfolding dict_update_def case_prod_beta
proof (induction b arbitrary: a)
  case Nil
  then show ?case by simp
next
  case (Cons kv b)
  from Cons.prems have d: "distinct (map fst b)" and n: "fst kv \<notin> fst ` set b" by simp_all
  have n': "map_of b (fst kv) = None" using n by (simp add: map_of_eq_None_iff)
  show ?case using Cons.IH[OF d, of "AList.update (fst kv) (snd kv) a"] n'
    by (cases kv) (auto simp: update_conv' split: option.splits)
qed

lemma distinct_dict_update:
  assumes "distinct (map fst a)"
  shows "distinct (map fst (dict_update a b))"
  using assms unfolding dict_update_def case_prod_beta
  by (induction b arbitrary: a) (simp_all add: distinct_update)

lemma dict_like_dict_update:
  assumes "dict_like a" and "dict_like b"
  shows "dict_like (dict_update a b)"
  unfolding dict_like_def
  using distinct_dict_update[of a b] set_dict_update_subset[of a b] assms
  unfolding dict_like_def by blast

lemma lookup2_dict_update:
  assumes "distinct (map fst b)"
  shows "lookup2 (dict_update a b) sid day =
           (if sid \<in> fst ` set b then lookup2 b sid day else lookup2 a sid day)"
proof (cases "map_of b sid")
  case None
  then have "sid \<notin> fst ` set b" by (simp add: map_of_eq_None_iff)
  then show ?thesis
    unfolding lookup2_def nested_get_def map_of_dict_update[OF assms] using None by simp
next
  case (Some m)
  then have "(sid, m) \<in> set b" by (rule map_of_SomeD)
  then have "sid \<in> fst ` set b" by force
  then show ?thesis
    unfolding lookup2_def nested_get_def map_of_dict_update[OF assms] using Some by simp
qed


subsection \<open>A later tier keeps what an earlier tier assigned\<close>

lemma priority_group_ids: "fst ` set (priority_group label preferences) = ids_of preferences {label}"
  by (auto simp: priority_group_def ids_of_def)

lemma ids_of_mono: "V \<subseteq> W \<Longrightarrow> ids_of preferences V \<subseteq> ids_of preferences W"
  by (auto simp: ids_of_def)

lemma ids_of_one_weight:
  assumes "distinct (map fst preferences)"
    and "sid \<in> ids_of preferences W" and "sid \<in> ids_of preferences {label}"
  shows "label \<in> W"
proof -
  from assms(2) obtain d where d: "(sid, d) \<in> set preferences" "weight d \<in> W"
    unfolding ids_of_def by force
  from assms(3) obtain d' where d': "(sid, d') \<in> set preferences" "weight d' = label"
    unfolding ids_of_def by force
  from assms(1) d(1) d'(1) have "d = d'" by (rule eq_key_imp_eq_value)
  then show ?thesis using d(2) d'(2) by simp
qed

lemma lookup2_key:
  assumes "lookup2 d k1 k2 = Some v"
  shows "k1 \<in> fst ` set d"
proof (cases "map_of d k1")
  case None
  then show ?thesis using assms by (simp add: lookup2_def nested_get_def)
next
  case (Some m)
  then have "(k1, m) \<in> set d" by (rule map_of_SomeD)
  then show ?thesis by force
qed

lemma process_group_step:
  assumes "distinct (map fst preferences)" and "reports_edges solve"
    and "process_group solve preferences label (asg0, cap0) = Inr (asg1, cap1)"
    and "dict_like asg0" and "fst ` set asg0 \<subseteq> ids_of preferences W" and "label \<notin> W"
  shows "dict_like asg1"
    and "fst ` set asg1 \<subseteq> ids_of preferences (insert label W)"
    and "lookup2 asg0 sid day = Some act \<Longrightarrow> lookup2 asg1 sid day = Some act"
    and "\<And>new cap'. assign_priority_group solve (priority_group label preferences) label cap0 =
            Inr (new, cap') \<Longrightarrow>
          lookup2 new sid day = Some act \<Longrightarrow> lookup2 asg1 sid day = Some act"
proof -
  from assms(3) obtain new where
    new: "assign_priority_group solve (priority_group label preferences) label cap0 =
            Inr (new, cap1)"
    and asg1: "asg1 = dict_update asg0 new"
    by (cases rule: process_group_cases) simp
  have gd: "group_dict (priority_group label preferences) new"
    by (rule assign_priority_group_group_dict[OF new assms(2)])
  then have dn: "dict_like new" and kn: "fst ` set new \<subseteq> ids_of preferences {label}"
    by (simp_all add: group_dict_def priority_group_ids)
  have dist: "distinct (map fst new)" using dn by (simp add: dict_like_def)
  show "dict_like asg1" unfolding asg1 by (rule dict_like_dict_update[OF assms(4) dn])
  show "fst ` set asg1 \<subseteq> ids_of preferences (insert label W)"
    unfolding asg1 keys_dict_update
    using assms(5) kn ids_of_mono[of W "insert label W" preferences]
      ids_of_mono[of "{label}" "insert label W" preferences] by blast
  show "lookup2 asg1 sid day = Some act" if l: "lookup2 asg0 sid day = Some act"
  proof -
    have "sid \<in> ids_of preferences W" using lookup2_key[OF l] assms(5) by blast
    then have "sid \<notin> fst ` set new"
      using ids_of_one_weight[OF assms(1)] kn assms(6) by blast
    then show ?thesis unfolding asg1 lookup2_dict_update[OF dist] using l by simp
  qed
  show "lookup2 asg1 sid day = Some act"
    if a: "assign_priority_group solve (priority_group label preferences) label cap0 =
             Inr (new', cap')"
      and l: "lookup2 new' sid day = Some act" for new' cap'
  proof -
    have "new' = new" using a new by simp
    then have "sid \<in> fst ` set new" using lookup2_key[OF l] by simp
    then show ?thesis unfolding asg1 lookup2_dict_update[OF dist] using l \<open>new' = new\<close> by simp
  qed
qed

lemma tiers_keep:
  assumes "distinct (map fst preferences)" and "reports_edges solve"
    and "for_each (process_group solve preferences) ls (asg0, cap0) = Inr (asg, cap)"
    and "dict_like asg0" and "fst ` set asg0 \<subseteq> ids_of preferences W"
    and "distinct ls" and "set ls \<inter> W = {}"
  shows "dict_like asg \<and> fst ` set asg \<subseteq> ids_of preferences (W \<union> set ls) \<and>
         (lookup2 asg0 sid day = Some act \<longrightarrow> lookup2 asg sid day = Some act)"
  using assms(3-7)
proof (induction ls arbitrary: asg0 cap0 W)
  case Nil
  then show ?case by simp
next
  case (Cons label ls)
  from Cons.prems(1) obtain asg1 cap1 where
    pg: "process_group solve preferences label (asg0, cap0) = Inr (asg1, cap1)"
    and rest: "for_each (process_group solve preferences) ls (asg1, cap1) = Inr (asg, cap)"
    by (auto split: sum.splits)
  have lW: "label \<notin> W" using Cons.prems(5) by simp
  note step = process_group_step[OF assms(1,2) pg Cons.prems(2,3) lW]
  have dl: "distinct ls" and disj: "set ls \<inter> insert label W = {}"
    using Cons.prems(4,5) by auto
  from Cons.IH[OF rest step(1) step(2) dl disj]
  have "dict_like asg" "fst ` set asg \<subseteq> ids_of preferences (insert label W \<union> set ls)"
    "lookup2 asg1 sid day = Some act \<longrightarrow> lookup2 asg sid day = Some act" by simp_all
  then show ?case using step(3)[of sid day act] by auto
qed

lemma tiers_split_keep:
  assumes "distinct (map fst preferences)" and "reports_edges solve"
    and "for_each (process_group solve preferences) (pre @ label # post) ([], cap0) = Inr (asg, cap)"
    and "distinct (pre @ label # post)"
    and "for_each (process_group solve preferences) pre ([], cap0) = Inr (asg_n, cap_n)"
    and "after_passes solve (priority_group label preferences) cap_n k = Inr (ga_k, cap_k)"
    and "lookup2 asg_n sid day = Some act \<or> lookup2 ga_k sid day = Some act"
  shows "lookup2 asg sid day = Some act \<and> dict_like asg"
proof -
  have e: "dict_like ([] :: assignments)" "fst ` set ([] :: assignments) \<subseteq> ids_of preferences {}"
    by (simp_all add: dict_like_def)
  from tiers_keep[OF assms(1,2,5) e] assms(4)
  have n: "dict_like asg_n" "fst ` set asg_n \<subseteq> ids_of preferences (set pre)" by simp_all
  from assms(3,5) have "for_each (process_group solve preferences) (label # post) (asg_n, cap_n) =
      Inr (asg, cap)"
    by (simp add: for_each_append)
  then obtain asg1 cap1 where
    pg: "process_group solve preferences label (asg_n, cap_n) = Inr (asg1, cap1)"
    and rest: "for_each (process_group solve preferences) post (asg1, cap1) = Inr (asg, cap)"
    by (auto split: sum.splits)
  have lW: "label \<notin> set pre" using assms(4) by simp
  note step = process_group_step[OF assms(1,2) pg n lW]
  from pg obtain new where
    new: "assign_priority_group solve (priority_group label preferences) label cap_n =
            Inr (new, cap1)"
    by (cases rule: process_group_cases) simp
  have one: "lookup2 asg1 sid day = Some act"
    using assms(7)
  proof
    assume "lookup2 asg_n sid day = Some act"
    then show ?thesis by (rule step(3))
  next
    assume "lookup2 ga_k sid day = Some act"
    with new assms(6) have "lookup2 new sid day = Some act" by (rule passes_keep)
    with new show ?thesis by (rule step(4))
  qed
  have dl: "distinct post" and disj: "set post \<inter> insert label (set pre) = {}"
    using assms(4) by auto
  from tiers_keep[OF assms(1,2) rest step(1) step(2) dl disj, of sid day act] one
  show ?thesis by simp
qed


lemma init_capacity_sample: "init_capacity mon_to_thu sample_preferences = Inr full_ledger"
  by code_simp

lemma sample_after_two_tiers:
  "after_tiers (checked first_fit) sample_preferences full_ledger 2 =
     Inr ([(''S1'', all_days ''x'')], ledger_after_S1)"
  by code_simp

lemma sample_low_tier_first_pass:
  "after_passes (checked first_fit) (priority_group ''low'' sample_preferences) ledger_after_S1 1 =
     Inr ([(''S2'', all_days ''x'')], sample_ledger)"
  by code_simp

text \<open>
  Claim C4.  The final assignment mapping is a dictionary of dictionaries, so a
  (student, day) pair has at most one activity; and an activity that a pair has after
  any number of tiers, or after any number of passes of the tier that follows them, is
  the activity the pair has at the end of the run.  The inputs are dictionaries and the
  solver reports flows on the edges of the network it was given.
\<close>

theorem committed_pair_is_kept:
  assumes "well_formed preferences" and "reports_edges solve"
    and "init_capacity day_order preferences = Inr cap0"
    and "allocate day_order solve preferences = Inr (asg, cap)"
  shows "dict_like asg \<and>
         (\<forall>n k asg_n cap_n ga_k cap_k sid day act.
            n < 3 \<longrightarrow>
            after_tiers solve preferences cap0 n = Inr (asg_n, cap_n) \<longrightarrow>
            after_passes solve (priority_group ([''high'', ''medium'', ''low''] ! n) preferences)
              cap_n k = Inr (ga_k, cap_k) \<longrightarrow>
            lookup2 asg_n sid day = Some act \<or> lookup2 ga_k sid day = Some act \<longrightarrow>
            lookup2 asg sid day = Some act)"
proof -
  have d: "distinct (map fst preferences)" using assms(1) by (simp add: well_formed_def)
  from assms(4) assms(3) have run:
    "for_each (process_group solve preferences) [''high'', ''medium'', ''low''] ([], cap0) =
       Inr (asg, cap)"
    by (cases rule: allocate_cases) simp
  have e: "dict_like ([] :: assignments)" "fst ` set ([] :: assignments) \<subseteq> ids_of preferences {}"
    by (simp_all add: dict_like_def)
  have dl: "dict_like asg"
    using tiers_keep[OF d assms(2) run e] by simp
  have keep: "lookup2 asg sid day = Some act"
    if n: "n < 3"
      and t: "after_tiers solve preferences cap0 n = Inr (asg_n, cap_n)"
      and p: "after_passes solve (priority_group ([''high'', ''medium'', ''low''] ! n) preferences)
                cap_n k = Inr (ga_k, cap_k)"
      and c: "lookup2 asg_n sid day = Some act \<or> lookup2 ga_k sid day = Some act"
    for n k asg_n cap_n ga_k cap_k sid day act
  proof -
    from n consider "n = 0" | "n = 1" | "n = 2" by linarith
    then show ?thesis
    proof cases
      case 1
      have t': "for_each (process_group solve preferences) [] ([], cap0) = Inr (asg_n, cap_n)"
        using t unfolding 1 after_tiers_def by simp
      have p': "after_passes solve (priority_group ''high'' preferences) cap_n k = Inr (ga_k, cap_k)"
        using p unfolding 1 by simp
      have r: "for_each (process_group solve preferences) ([] @ ''high'' # [''medium'', ''low''])
                 ([], cap0) = Inr (asg, cap)"
        using run by (simp only: append_Nil)
      have di: "distinct ([] @ ''high'' # [''medium'', ''low''])" by simp
      show ?thesis using tiers_split_keep[OF d assms(2) r di t' p' c] by simp
    next
      case 2
      have t': "for_each (process_group solve preferences) [''high''] ([], cap0) = Inr (asg_n, cap_n)"
        using t unfolding 2 after_tiers_def by (simp only: take_Suc_Cons take_0 One_nat_def)
      have p': "after_passes solve (priority_group ''medium'' preferences) cap_n k = Inr (ga_k, cap_k)"
        using p unfolding 2 by simp
      have r: "for_each (process_group solve preferences) ([''high''] @ ''medium'' # [''low''])
                 ([], cap0) = Inr (asg, cap)"
        using run by (simp only: append_Cons append_Nil)
      have di: "distinct ([''high''] @ ''medium'' # [''low''])" by simp
      show ?thesis using tiers_split_keep[OF d assms(2) r di t' p' c] by simp
    next
      case 3
      have tk: "take 2 [''high'', ''medium'', ''low''] = [''high'', ''medium'']"
        by (simp add: numeral_2_eq_2)
      have t': "for_each (process_group solve preferences) [''high'', ''medium''] ([], cap0) =
                  Inr (asg_n, cap_n)"
        using t unfolding 3 after_tiers_def tk .
      have p': "after_passes solve (priority_group ''low'' preferences) cap_n k = Inr (ga_k, cap_k)"
        using p unfolding 3 by simp
      have r: "for_each (process_group solve preferences) ([''high'', ''medium''] @ ''low'' # [])
                 ([], cap0) = Inr (asg, cap)"
        using run by (simp only: append_Cons append_Nil)
      have di: "distinct ([''high'', ''medium''] @ ''low'' # [])" by simp
      show ?thesis using tiers_split_keep[OF d assms(2) r di t' p' c] by simp
    qed
  qed
  show ?thesis using dl keep by blast
qed

theorem committed_pair_is_kept_witness:
  "well_formed sample_preferences \<and> reports_edges (checked first_fit) \<and>
   init_capacity mon_to_thu sample_preferences = Inr full_ledger \<and>
   allocate mon_to_thu (checked first_fit) sample_preferences =
     Inr (sample_assignments, sample_ledger) \<and>
   after_tiers (checked first_fit) sample_preferences full_ledger 2 =
     Inr ([(''S1'', all_days ''x'')], ledger_after_S1) \<and>
   after_passes (checked first_fit) (priority_group ''low'' sample_preferences) ledger_after_S1 1 =
     Inr ([(''S2'', all_days ''x'')], sample_ledger) \<and>
   lookup2 [(''S2'', all_days ''x'')] ''S2'' ''mon'' = Some ''x'' \<and>
   lookup2 sample_assignments ''S2'' ''mon'' = Some ''x'' \<and> dict_like sample_assignments"
proof -
  have re: "reports_edges (checked first_fit)"
    by (rule returns_flows_reports_edges[OF checked_returns_flows])
  have n: "(2::nat) < 3" by simp
  have p: "after_passes (checked first_fit)
             (priority_group ([''high'', ''medium'', ''low''] ! 2) sample_preferences)
             ledger_after_S1 1 = Inr ([(''S2'', all_days ''x'')], sample_ledger)"
    using sample_low_tier_first_pass by simp
  have c: "lookup2 [(''S2'', all_days ''x'')] ''S2'' ''mon'' = Some ''x''" by code_simp
  from committed_pair_is_kept[OF well_formed_sample re init_capacity_sample sample_allocate]
  have dl: "dict_like sample_assignments"
    and keep: "\<And>n k asg_n cap_n ga_k cap_k sid day act.
            n < 3 \<Longrightarrow>
            after_tiers (checked first_fit) sample_preferences full_ledger n = Inr (asg_n, cap_n) \<Longrightarrow>
            after_passes (checked first_fit)
              (priority_group ([''high'', ''medium'', ''low''] ! n) sample_preferences)
              cap_n k = Inr (ga_k, cap_k) \<Longrightarrow>
            lookup2 asg_n sid day = Some act \<or> lookup2 ga_k sid day = Some act \<Longrightarrow>
            lookup2 sample_assignments sid day = Some act"
    by blast+
  have "lookup2 sample_assignments ''S2'' ''mon'' = Some ''x''"
    by (rule keep[OF n sample_after_two_tiers p]) (simp add: c)
  then show ?thesis
    by (intro conjI well_formed_sample re init_capacity_sample sample_allocate
        sample_after_two_tiers sample_low_tier_first_pass c dl)
qed

end
